theory Spec2Isabelle
  imports Complex_Main "HOL-Library.AList" "HOL-Library.Log_Nat" "HOL-Library.Word"
begin

unbundle bit_operations_syntax

section \<open>discovery.js: presence discovery over UDP broadcast\<close>

text \<open>
  The class \<^verbatim>\<open>DeviceDiscovery\<close> keeps its peers in a JavaScript \<^verbatim>\<open>Map\<close> from
  \<^verbatim>\<open>deviceId\<close> to a \<^verbatim>\<open>deviceInfo\<close> object. A \<^verbatim>\<open>Map\<close> iterates in insertion order,
  \<^verbatim>\<open>set\<close> on a key that is present keeps its position and \<^verbatim>\<open>set\<close> on a new key
  appends, so the table is an association list handled with \<open>AList.update\<close> and
  \<open>AList.delete\<close>. \<^verbatim>\<open>Date.now()\<close> and \<^verbatim>\<open>os.networkInterfaces()\<close> are arguments of
  the functions that read them. Every \<^verbatim>\<open>emit\<close> of a function is returned, in order,
  next to the new state.
\<close>

definition DISCOVERY_PORT :: nat where
  "DISCOVERY_PORT = 41234"

definition DEVICE_TIMEOUT :: int where
  "DEVICE_TIMEOUT = 10000"

record deviceInfo =
  deviceId :: string
  deviceName :: string
  email :: string
  ip :: string
  lastSeen :: int

text \<open>
  The value of \<^verbatim>\<open>JSON.parse(msg.toString())\<close>, with the fields \<^verbatim>\<open>handleMessage\<close>
  reads, typed as the wire schema types them. A datagram is \<open>None\<close> when
  \<^verbatim>\<open>JSON.parse\<close> throws, or returns \<^verbatim>\<open>null\<close> so that reading \<^verbatim>\<open>data.type\<close> throws: both
  end in the \<^verbatim>\<open>catch\<close> of \<^verbatim>\<open>handleMessage\<close>.
\<close>

record presence =
  p_type :: string
  p_deviceId :: string
  p_deviceName :: string
  p_email :: string

datatype d_event =
    DeviceFound deviceInfo
  | DeviceLost deviceInfo
  | DevicesUpdated "deviceInfo list"

text \<open>
  The fields of the instance. \<open>socket\<close> is whether \<^verbatim>\<open>this.socket\<close> is not null; the
  identity fields are \<^verbatim>\<open>null\<close> (\<open>None\<close>) until \<^verbatim>\<open>start\<close> sets them.
\<close>

record discovery =
  socket :: bool
  devices :: "(string \<times> deviceInfo) list"
  myDeviceId :: "string option"
  myDeviceName :: "string option"
  myEmail :: "string option"
  isRunning :: bool

definition DeviceDiscovery_constructor :: discovery where
  "DeviceDiscovery_constructor =
     \<lparr>socket = False, devices = [], myDeviceId = None, myDeviceName = None,
      myEmail = None, isRunning = False\<rparr>"

definition start :: "string \<Rightarrow> string \<Rightarrow> string option \<Rightarrow> discovery \<Rightarrow> discovery" where
  "start dId dName mail s =
     (if isRunning s then s
      else s\<lparr>myDeviceId := Some dId, myDeviceName := Some dName, myEmail := mail,
             socket := True, isRunning := True\<rparr>)"

definition stop :: "discovery \<Rightarrow> discovery" where
  "stop s =
     (if \<not> isRunning s then s
      else s\<lparr>socket := False, devices := [], isRunning := False\<rparr>)"

definition updateEmail :: "string option \<Rightarrow> discovery \<Rightarrow> discovery" where
  "updateEmail mail s = s\<lparr>myEmail := mail\<rparr>"

definition updateDeviceName :: "string \<Rightarrow> discovery \<Rightarrow> discovery" where
  "updateDeviceName name s = s\<lparr>myDeviceName := Some name\<rparr>"

definition getDeviceList :: "discovery \<Rightarrow> deviceInfo list" where
  "getDeviceList s = map snd (devices s)"

definition has :: "(string \<times> deviceInfo) list \<Rightarrow> string \<Rightarrow> bool" where
  "has devs k = (k \<in> set (map fst devs))"

definition handleMessage ::
    "presence option \<Rightarrow> string \<Rightarrow> int \<Rightarrow> discovery \<Rightarrow> discovery \<times> d_event list" where
  "handleMessage msg rinfo_address now s =
     (case msg of
        None \<Rightarrow> (s, [])
      | Some data \<Rightarrow>
          if p_type data \<noteq> ''presence'' then (s, [])
          else if Some (p_deviceId data) = myDeviceId s then (s, [])
          else
            let info = \<lparr>deviceId = p_deviceId data, deviceName = p_deviceName data,
                        email = p_email data, ip = rinfo_address, lastSeen = now\<rparr>;
                isNew = (\<not> has (devices s) (p_deviceId data));
                s' = s\<lparr>devices := AList.update (p_deviceId data) info (devices s)\<rparr>
            in (s', (if isNew then [DeviceFound info] else []) @
                    [DevicesUpdated (getDeviceList s')]))"

text \<open>
  \<^verbatim>\<open>cleanupStaleDevices\<close>: the \<^verbatim>\<open>for ... of this.devices\<close> loop visits the entries in
  order; a stale entry is deleted from the table by its key, its \<^verbatim>\<open>deviceLost\<close> is
  emitted and \<^verbatim>\<open>changed\<close> is set. The accumulator is the table, the events so far and
  \<^verbatim>\<open>changed\<close>.
\<close>

definition stale :: "int \<Rightarrow> deviceInfo \<Rightarrow> bool" where
  "stale now info = (now - lastSeen info > DEVICE_TIMEOUT)"

fun cleanup_loop ::
    "int \<Rightarrow> (string \<times> deviceInfo) list \<Rightarrow>
     (string \<times> deviceInfo) list \<times> d_event list \<times> bool \<Rightarrow>
     (string \<times> deviceInfo) list \<times> d_event list \<times> bool" where
  "cleanup_loop now [] acc = acc"
| "cleanup_loop now ((k, info) # rest) (devs, evs, changed) =
     (if stale now info
      then cleanup_loop now rest (AList.delete k devs, evs @ [DeviceLost info], True)
      else cleanup_loop now rest (devs, evs, changed))"

definition cleanupStaleDevices :: "int \<Rightarrow> discovery \<Rightarrow> discovery \<times> d_event list" where
  "cleanupStaleDevices now s =
     (case cleanup_loop now (devices s) (devices s, [], False) of
        (devs, evs, changed) \<Rightarrow>
          let s' = s\<lparr>devices := devs\<rparr>
          in (s', evs @ (if changed then [DevicesUpdated (getDeviceList s')] else [])))"

text \<open>
  What can happen to a discovery instance: the host's calls, a datagram arriving on the
  socket (its \<^verbatim>\<open>message\<close> listener exists only while the socket does) and a tick of the
  sweep timer.
\<close>

datatype d_op =
    Start string string "string option"
  | Stop
  | UpdateEmail "string option"
  | UpdateDeviceName string
  | Message "presence option" string int
  | Sweep int

fun d_step :: "d_op \<Rightarrow> discovery \<Rightarrow> discovery" where
  "d_step (Start dId dName mail) s = start dId dName mail s"
| "d_step Stop s = stop s"
| "d_step (UpdateEmail mail) s = updateEmail mail s"
| "d_step (UpdateDeviceName name) s = updateDeviceName name s"
| "d_step (Message msg addr now) s = (if socket s then fst (handleMessage msg addr now s) else s)"
| "d_step (Sweep now) s = fst (cleanupStaleDevices now s)"

fun d_run :: "d_op list \<Rightarrow> discovery \<Rightarrow> discovery" where
  "d_run [] s = s"
| "d_run (x # xs) s = d_run xs (d_step x s)"

text \<open>A run of datagrams through \<^verbatim>\<open>handleMessage\<close>, each with its sender address and arrival time.\<close>

fun handleMessages :: "(presence option \<times> string \<times> int) list \<Rightarrow> discovery \<Rightarrow> discovery" where
  "handleMessages [] s = s"
| "handleMessages ((msg, addr, now) # rest) s = handleMessages rest (fst (handleMessage msg addr now s))"

subsection \<open>Broadcasting\<close>

text \<open>
  An entry of \<^verbatim>\<open>os.networkInterfaces()\<close>. \<open>address\<close> and \<open>netmask\<close> are the octets
  of the dotted strings, that is \<^verbatim>\<open>iface.address.split('.').map(Number)\<close>; a broadcast
  address is kept as its octets too (the source joins them with dots).
\<close>

record iface =
  internal :: bool
  family :: string
  address :: "int list"
  netmask :: "int list"

text \<open>
  \<^verbatim>\<open>octet | (~mask[i] & 255)\<close>. Past the end of \<^verbatim>\<open>mask\<close> the read is \<^verbatim>\<open>undefined\<close>,
  and \<^verbatim>\<open>~undefined\<close> is \<open>-1\<close>.
\<close>

definition broadcast_octet :: "int list \<Rightarrow> nat \<Rightarrow> int \<Rightarrow> int" where
  "broadcast_octet msk i octet =
     octet OR ((if i < length msk then NOT (msk ! i) else - 1) AND 255)"

definition broadcast_of :: "int list \<Rightarrow> int list \<Rightarrow> int list" where
  "broadcast_of ip_octets msk =
     map (\<lambda>(i, octet). broadcast_octet msk i octet) (enumerate 0 ip_octets)"

fun iface_loop :: "iface list \<Rightarrow> int list list \<Rightarrow> int list list" where
  "iface_loop [] addresses = addresses"
| "iface_loop (i # rest) addresses =
     (if internal i \<or> family i \<noteq> ''IPv4'' then iface_loop rest addresses
      else iface_loop rest (addresses @ [broadcast_of (address i) (netmask i)]))"

fun name_loop :: "(string \<times> iface list) list \<Rightarrow> int list list \<Rightarrow> int list list" where
  "name_loop [] addresses = addresses"
| "name_loop ((name, ifaces) # rest) addresses = name_loop rest (iface_loop ifaces addresses)"

definition getBroadcastAddresses :: "(string \<times> iface list) list \<Rightarrow> int list list" where
  "getBroadcastAddresses interfaces =
     (let addresses = name_loop interfaces []
      in if length addresses = 0 then addresses @ [[255, 255, 255, 255]] else addresses)"

text \<open>The object \<^verbatim>\<open>broadcast\<close> serialises, and one \<^verbatim>\<open>socket.send\<close>.\<close>

record announcement =
  a_type :: string
  a_deviceId :: "string option"
  a_deviceName :: "string option"
  a_email :: string
  a_timestamp :: int

record datagram =
  dg_message :: announcement
  dg_port :: nat
  dg_address :: "int list"

text \<open>
  The closure \<^verbatim>\<open>broadcast\<close> of \<^verbatim>\<open>startBroadcasting\<close>, run at once and then on every
  tick: the datagrams it sends. \<^verbatim>\<open>!this.myEmail\<close> holds for \<^verbatim>\<open>null\<close> and for the empty
  string.
\<close>

definition broadcast :: "(string \<times> iface list) list \<Rightarrow> int \<Rightarrow> discovery \<Rightarrow> datagram list" where
  "broadcast interfaces now s =
     (case myEmail s of
        None \<Rightarrow> []
      | Some mail \<Rightarrow>
          if \<not> socket s \<or> mail = [] then []
          else
            let message = \<lparr>a_type = ''presence'', a_deviceId = myDeviceId s,
                           a_deviceName = myDeviceName s, a_email = mail, a_timestamp = now\<rparr>
            in map (\<lambda>addr. \<lparr>dg_message = message, dg_port = DISCOVERY_PORT, dg_address = addr\<rparr>)
                 (getBroadcastAddresses interfaces))"

section \<open>fileTransfer.js: consent-based file transfer over TCP\<close>

text \<open>
  A \<^verbatim>\<open>Buffer\<close> is a list of bytes. \<^verbatim>\<open>JSON.parse\<close> and \<^verbatim>\<open>path.join\<close> are built-ins
  of the platform and not part of the source: they are the two fields of the argument
  \<open>node\<close> of the functions that call them. \<^verbatim>\<open>JSON.parse\<close> of an offer header throws,
  or returns \<^verbatim>\<open>null\<close>, or returns a header with its four fields, typed as the wire
  schema types them. A JSON value of another shape (a number, a string, an object
  without these fields) is not represented: reading its fields gives \<^verbatim>\<open>undefined\<close>
  and does not throw.
\<close>

definition TRANSFER_PORT :: nat where
  "TRANSFER_PORT = 41235"

definition CHUNK_SIZE :: nat where
  "CHUNK_SIZE = 64 * 1024"

type_synonym buffer = "char list"

record transferInfo =
  transferId :: string
  fileName :: string
  fileSize :: int
  senderEmail :: string

datatype parsed = Throws | Null | Header transferInfo

record builtins =
  JSON_parse :: "string \<Rightarrow> parsed"
  path_join :: "string \<Rightarrow> string \<Rightarrow> string"

datatype js_error = TypeError

subsection \<open>Numbers\<close>

text \<open>
  A JavaScript number is an IEEE 754 double, and \<^verbatim>\<open>/\<close> and \<^verbatim>\<open>*\<close> round their exact
  result to the nearest double, ties to the even mantissa. A finite double is kept as the
  pair of an integer mantissa \<open>m\<close> and an exponent \<open>e\<close>, its value \<open>dval\<close> being
  \<open>m * 2 ^ e\<close>. Byte counts are natural numbers and the declared size is an integer:
  up to \<open>2 ^ 53\<close> these are doubles themselves and their sums are exact, and the quotient
  of such a count by a non-zero integer cannot overflow, nor can its hundredfold. Beyond
  that range a JavaScript counter no longer counts exactly, and the model says nothing.

  \<open>expo p q\<close> is the binary exponent of the positive fraction \<open>p / q\<close>, that is
  \<open>\<lfloor>log\<^sub>2 (p / q)\<rfloor>\<close>; \<open>round_even n d\<close> is the integer nearest to \<open>n / d\<close>, the even
  one of two equally near; \<open>nearest_double p q\<close> is the double nearest to \<open>p / q \<ge> 0\<close>,
  with 53 bits of mantissa, or fewer below \<open>2 ^ - 1022\<close> where doubles are subnormal.
\<close>

type_synonym double = "int \<times> int"


definition expo :: "int \<Rightarrow> int \<Rightarrow> int" where
  "expo p q =
     (let d = bitlen p - bitlen q
      in if (if 0 \<le> d then q * 2 ^ nat d \<le> p else q \<le> p * 2 ^ nat (- d)) then d else d - 1)"

definition round_even :: "int \<Rightarrow> int \<Rightarrow> int" where
  "round_even n d =
     (let f = n div d; r = n mod d
      in if 2 * r < d then f else if d < 2 * r then f + 1 else if even f then f else f + 1)"

definition nearest_double :: "int \<Rightarrow> int \<Rightarrow> double" where
  "nearest_double p q =
     (if p = 0 then (0, 0)
      else
        let e = max (expo p q) (- 1022) - 52
        in (if 0 \<le> e then round_even p (q * 2 ^ nat e) else round_even (p * 2 ^ nat (- e)) q, e))"

text \<open>
  \<^verbatim>\<open>a / b\<close> for integers \<open>a\<close> and \<open>b \<noteq> 0\<close>, \<^verbatim>\<open>x * k\<close> for a double \<open>x\<close> and an
  integer \<open>k\<close>, and \<^verbatim>\<open>Math.round(x)\<close>, which is \<open>\<lfloor>x + 1 / 2\<rfloor>\<close> computed exactly.
\<close>

definition js_divide :: "int \<Rightarrow> int \<Rightarrow> double" where
  "js_divide a b = (case nearest_double \<bar>a\<bar> \<bar>b\<bar> of (m, e) \<Rightarrow> (sgn a * sgn b * m, e))"

definition js_times :: "double \<Rightarrow> int \<Rightarrow> double" where
  "js_times x k =
     (case x of (m, e) \<Rightarrow>
        if 0 \<le> e then js_divide (m * k * 2 ^ nat e) 1 else js_divide (m * k) (2 ^ nat (- e)))"

definition Math_round :: "double \<Rightarrow> int" where
  "Math_round x =
     (case x of (m, e) \<Rightarrow>
        if 0 \<le> e then m * 2 ^ nat e else (2 * m + 2 ^ nat (- e)) div 2 ^ (nat (- e) + 1))"

text \<open>
  The value of \<^verbatim>\<open>Math.round((bytes / total) * 100)\<close>: the integer \<open>percent bytes total\<close>
  when \<^verbatim>\<open>total\<close> is not zero, and otherwise \<^verbatim>\<open>Infinity\<close>, or \<^verbatim>\<open>NaN\<close> for \<^verbatim>\<open>0 / 0\<close>.
\<close>

definition percent :: "int \<Rightarrow> int \<Rightarrow> int" where
  "percent bytes tot = Math_round (js_times (js_divide bytes tot) 100)"

datatype jsnum = Num int | Infinity | NaN

definition progress_of :: "nat \<Rightarrow> int \<Rightarrow> jsnum" where
  "progress_of bytes tot =
     (if tot = 0 then (if bytes = 0 then NaN else Infinity)
      else Num (percent (int bytes) tot))"

subsection \<open>State\<close>

datatype direction = receiving | sending

datatype event =
    TransferRequest string string int string
  | TransferProgress string nat int jsnum direction
  | TransferComplete string string string
  | TransferCancelled string
  | SendComplete string string

text \<open>
  The objects of the receive path. \<open>pending\<close> is the value of \<^verbatim>\<open>this.pendingTransfer\<close>,
  whose \<^verbatim>\<open>transferInfo\<close> is \<open>None\<close> when it is \<^verbatim>\<open>null\<close>; \<open>active\<close> is an entry of
  \<^verbatim>\<open>this.activeTransfers\<close>; \<open>receiver\<close> holds the variables captured by the two listeners
  \<^verbatim>\<open>acceptTransfer\<close> registers; \<open>conn\<close> is a socket together with the variables captured by
  the listeners of \<^verbatim>\<open>handleIncomingConnection\<close>. Of a socket, \<open>c_unread\<close> are the chunks
  that arrived and were not yet read (a paused socket reads nothing), \<open>c_out\<close> is what has
  been written to it and \<open>c_ended\<close> whether \<^verbatim>\<open>socket.end()\<close> was called. Sockets and write
  streams are objects shared between closures and tables, so they live in stores and are
  named by numbers.
\<close>

record pending =
  p_socket :: nat
  p_transferInfo :: "transferInfo option"
  p_buffer :: buffer

record active =
  a_fileStream :: nat
  a_filePath :: string
  a_totalSize :: int
  a_receivedBytes :: nat

record receiver =
  r_transferId :: string
  r_transferInfo :: transferInfo
  r_fileStream :: nat
  r_filePath :: string
  r_receivedBytes :: nat

record conn =
  c_buffer :: buffer
  c_transferInfo :: "transferInfo option"
  c_headerReceived :: bool
  c_paused :: bool
  c_ended :: bool
  c_closed :: bool
  c_unread :: "buffer list"
  c_out :: "buffer list"
  c_receiver :: "receiver option"

text \<open>
  A write stream opens its file asynchronously: until then \<open>w_open\<close> is \<open>Opening\<close> and
  what is written to the stream waits in \<open>w_pending\<close>.
\<close>

datatype open_state = Opening | Opened | Failed

record writeStream =
  w_path :: string
  w_open :: open_state
  w_ended :: bool
  w_closed :: bool
  w_pending :: buffer

text \<open>
  The instance and the world it acts on: \<open>disk\<close> maps a path to the content of the file
  there, and \<open>locked\<close> are the paths that \<^verbatim>\<open>fs.unlinkSync\<close> is refused on (no permission,
  file in use).
\<close>

record ft_state =
  pendingTransfer :: "pending option"
  activeTransfers :: "string \<rightharpoonup> active"
  receivePath :: string
  conns :: "nat \<rightharpoonup> conn"
  streams :: "nat \<rightharpoonup> writeStream"
  nextStream :: nat
  disk :: "string \<rightharpoonup> buffer"
  locked :: "string set"
  events :: "event list"

definition FileTransfer_constructor :: "string \<Rightarrow> ft_state" where
  "FileTransfer_constructor dir =
     \<lparr>pendingTransfer = None, activeTransfers = Map.empty, receivePath = dir,
      conns = Map.empty, streams = Map.empty, nextStream = 0, disk = Map.empty,
      locked = {}, events = []\<rparr>"

definition emit :: "event \<Rightarrow> ft_state \<Rightarrow> ft_state" where
  "emit e s = s\<lparr>events := events s @ [e]\<rparr>"

subsection \<open>Sockets\<close>

definition new_conn :: conn where
  "new_conn =
     \<lparr>c_buffer = [], c_transferInfo = None, c_headerReceived = False, c_paused = False,
      c_ended = False, c_closed = False, c_unread = [], c_out = [], c_receiver = None\<rparr>"

definition update_conn :: "nat \<Rightarrow> (conn \<Rightarrow> conn) \<Rightarrow> ft_state \<Rightarrow> ft_state" where
  "update_conn sid f s =
     (case conns s sid of None \<Rightarrow> s | Some c \<Rightarrow> s\<lparr>conns := (conns s)(sid \<mapsto> f c)\<rparr>)"

definition socket_write :: "nat \<Rightarrow> buffer \<Rightarrow> ft_state \<Rightarrow> ft_state" where
  "socket_write sid data s = update_conn sid (\<lambda>c. c\<lparr>c_out := c_out c @ [data]\<rparr>) s"

definition socket_end :: "nat \<Rightarrow> ft_state \<Rightarrow> ft_state" where
  "socket_end sid s = update_conn sid (\<lambda>c. c\<lparr>c_ended := True\<rparr>) s"

definition socket_pause :: "nat \<Rightarrow> ft_state \<Rightarrow> ft_state" where
  "socket_pause sid s = update_conn sid (\<lambda>c. c\<lparr>c_paused := True\<rparr>) s"

definition socket_resume :: "nat \<Rightarrow> ft_state \<Rightarrow> ft_state" where
  "socket_resume sid s = update_conn sid (\<lambda>c. c\<lparr>c_paused := False\<rparr>) s"

subsection \<open>Files\<close>

text \<open>
  \<^verbatim>\<open>fs.createWriteStream\<close> returns a new stream at once and touches no file. The open
  completes later, as an event of its own (\<open>fileStream_open\<close>): when it succeeds the file
  is created or emptied and receives what was written to the stream meanwhile, also when
  the stream was ended or closed before (\<^verbatim>\<open>close\<close> of a write stream ends it, and an
  ended stream still writes out what it holds); when it fails the stream is dead (its
  \<^verbatim>\<open>error\<close> event, which nothing listens to, is not followed further). A write
  to a stream is appended to its file, or waits for the open; nothing is taken by a stream
  that was ended or closed or whose open failed. \<^verbatim>\<open>fs.unlinkSync\<close> throws \<open>ENOENT\<close> for
  a missing file and \<open>EPERM\<close> for a locked one.
\<close>

definition createWriteStream :: "string \<Rightarrow> ft_state \<Rightarrow> nat \<times> ft_state" where
  "createWriteStream p s =
     (nextStream s,
      s\<lparr>streams := (streams s)(nextStream s \<mapsto>
           \<lparr>w_path = p, w_open = Opening, w_ended = False, w_closed = False, w_pending = []\<rparr>),
        nextStream := Suc (nextStream s)\<rparr>)"

definition fileStream_open :: "nat \<Rightarrow> bool \<Rightarrow> ft_state \<Rightarrow> ft_state" where
  "fileStream_open fid ok s =
     (case streams s fid of
        None \<Rightarrow> s
      | Some w \<Rightarrow>
          if w_open w \<noteq> Opening then s
          else if ok then
            s\<lparr>disk := (disk s)(w_path w \<mapsto> w_pending w),
              streams := (streams s)(fid \<mapsto> w\<lparr>w_open := Opened, w_pending := []\<rparr>)\<rparr>
          else s\<lparr>streams := (streams s)(fid \<mapsto> w\<lparr>w_open := Failed, w_pending := []\<rparr>)\<rparr>)"

definition fileStream_write :: "nat \<Rightarrow> buffer \<Rightarrow> ft_state \<Rightarrow> ft_state" where
  "fileStream_write fid data s =
     (case streams s fid of
        None \<Rightarrow> s
      | Some w \<Rightarrow>
          if w_ended w \<or> w_closed w then s
          else (case w_open w of
                  Failed \<Rightarrow> s
                | Opening \<Rightarrow> s\<lparr>streams := (streams s)(fid \<mapsto> w\<lparr>w_pending := w_pending w @ data\<rparr>)\<rparr>
                | Opened \<Rightarrow>
                    (case disk s (w_path w) of
                       None \<Rightarrow> s
                     | Some content \<Rightarrow> s\<lparr>disk := (disk s)(w_path w \<mapsto> content @ data)\<rparr>)))"

definition fileStream_end :: "nat \<Rightarrow> ft_state \<Rightarrow> ft_state" where
  "fileStream_end fid s =
     (case streams s fid of
        None \<Rightarrow> s
      | Some w \<Rightarrow> s\<lparr>streams := (streams s)(fid \<mapsto> w\<lparr>w_ended := True\<rparr>)\<rparr>)"

definition fileStream_close :: "nat \<Rightarrow> ft_state \<Rightarrow> ft_state" where
  "fileStream_close fid s =
     (case streams s fid of
        None \<Rightarrow> s
      | Some w \<Rightarrow> s\<lparr>streams := (streams s)(fid \<mapsto> w\<lparr>w_closed := True\<rparr>)\<rparr>)"

datatype fs_error = ENOENT | EPERM

definition unlinkSync :: "string \<Rightarrow> ft_state \<Rightarrow> fs_error + ft_state" where
  "unlinkSync p s =
     (if disk s p = None then Inl ENOENT
      else if p \<in> locked s then Inl EPERM
      else Inr (s\<lparr>disk := (disk s)(p := None)\<rparr>))"

text \<open>
  What a stream has taken so far, in the order it was written: the content of its file
  once that is open, and before that what waits for the open.
\<close>

definition stream_bytes :: "nat \<Rightarrow> ft_state \<Rightarrow> buffer option" where
  "stream_bytes fid s =
     (case streams s fid of
        None \<Rightarrow> None
      | Some w \<Rightarrow>
          (case w_open w of
             Opening \<Rightarrow> Some (w_pending w)
           | Opened \<Rightarrow> disk s (w_path w)
           | Failed \<Rightarrow> None))"

subsection \<open>Progress\<close>

definition emitProgress :: "string \<Rightarrow> nat \<Rightarrow> int \<Rightarrow> direction \<Rightarrow> ft_state \<Rightarrow> ft_state" where
  "emitProgress tid bytes tot ty s =
     emit (TransferProgress tid bytes tot (progress_of bytes tot) ty) s"

subsection \<open>Receiving\<close>

fun indexOf :: "'a list \<Rightarrow> 'a \<Rightarrow> nat option" where
  "indexOf [] x = None"
| "indexOf (y # ys) x = (if y = x then Some 0 else map_option Suc (indexOf ys x))"

definition handleIncomingConnection :: "nat \<Rightarrow> ft_state \<Rightarrow> ft_state" where
  "handleIncomingConnection sid s = s\<lparr>conns := (conns s)(sid \<mapsto> new_conn)\<rparr>"

text \<open>
  The \<^verbatim>\<open>data\<close> listener of \<^verbatim>\<open>handleIncomingConnection\<close>. The buffer is cut at the first
  zero byte before the header is parsed, so it is cut also when the \<^verbatim>\<open>catch\<close> runs. When
  \<^verbatim>\<open>JSON.parse\<close> returns \<^verbatim>\<open>null\<close>, the \<^verbatim>\<open>try\<close> block sets \<^verbatim>\<open>headerReceived\<close> and
  \<^verbatim>\<open>this.pendingTransfer\<close> before the argument of \<^verbatim>\<open>this.emit\<close> reads
  \<^verbatim>\<open>transferInfo.senderEmail\<close> and throws; the \<^verbatim>\<open>catch\<close> then ends the socket and resets
  nothing.
\<close>

definition connection_onData :: "builtins \<Rightarrow> nat \<Rightarrow> buffer \<Rightarrow> ft_state \<Rightarrow> ft_state" where
  "connection_onData node sid chunk s =
     (case conns s sid of
        None \<Rightarrow> s
      | Some c \<Rightarrow>
          let buf = c_buffer c @ chunk in
          if \<not> c_headerReceived c then
            (case indexOf buf (CHR 0x00) of
               None \<Rightarrow> update_conn sid (\<lambda>c. c\<lparr>c_buffer := buf\<rparr>) s
             | Some nullIndex \<Rightarrow>
                 let headerStr = take nullIndex buf;
                     buf' = drop (nullIndex + 1) buf
                 in (case JSON_parse node headerStr of
                       Throws \<Rightarrow> socket_end sid (update_conn sid (\<lambda>c. c\<lparr>c_buffer := buf'\<rparr>) s)
                     | Null \<Rightarrow>
                         let s1 = update_conn sid
                                    (\<lambda>c. c\<lparr>c_buffer := buf', c_transferInfo := None,
                                           c_headerReceived := True\<rparr>) s;
                             s2 = s1\<lparr>pendingTransfer :=
                                       Some \<lparr>p_socket = sid, p_transferInfo = None, p_buffer = buf'\<rparr>\<rparr>
                         in socket_end sid s2
                     | Header info \<Rightarrow>
                         let s1 = update_conn sid
                                    (\<lambda>c. c\<lparr>c_buffer := buf', c_transferInfo := Some info,
                                           c_headerReceived := True\<rparr>) s;
                             s2 = s1\<lparr>pendingTransfer :=
                                       Some \<lparr>p_socket = sid, p_transferInfo = Some info,
                                             p_buffer = buf'\<rparr>\<rparr>;
                             s3 = emit (TransferRequest (senderEmail info) (fileName info)
                                          (fileSize info) (transferId info)) s2
                         in socket_pause sid s3))
          else update_conn sid (\<lambda>c. c\<lparr>c_buffer := buf\<rparr>) s)"

text \<open>The two listeners \<^verbatim>\<open>acceptTransfer\<close> registers on the socket.\<close>

definition accept_onData :: "nat \<Rightarrow> buffer \<Rightarrow> ft_state \<Rightarrow> ft_state" where
  "accept_onData sid chunk s =
     (case conns s sid of
        None \<Rightarrow> s
      | Some c \<Rightarrow>
          (case c_receiver c of
             None \<Rightarrow> s
           | Some r \<Rightarrow>
               let s1 = fileStream_write (r_fileStream r) chunk s;
                   receivedBytes = r_receivedBytes r + length chunk;
                   s2 = update_conn sid
                          (\<lambda>c. c\<lparr>c_receiver := Some (r\<lparr>r_receivedBytes := receivedBytes\<rparr>)\<rparr>) s1;
                   s3 = emitProgress (r_transferId r) receivedBytes
                          (fileSize (r_transferInfo r)) receiving s2
               in if int receivedBytes \<ge> fileSize (r_transferInfo r) then
                    let s4 = fileStream_end (r_fileStream r) s3;
                        s5 = s4\<lparr>activeTransfers := (activeTransfers s4)(r_transferId r := None)\<rparr>
                    in emit (TransferComplete (r_transferId r) (r_filePath r)
                               (fileName (r_transferInfo r))) s5
                  else s3))"

definition accept_onClose :: "nat \<Rightarrow> ft_state \<Rightarrow> ft_state" where
  "accept_onClose sid s =
     (case conns s sid of
        None \<Rightarrow> s
      | Some c \<Rightarrow>
          (case c_receiver c of
             None \<Rightarrow> s
           | Some r \<Rightarrow>
               let s1 = fileStream_end (r_fileStream r) s
               in if int (r_receivedBytes r) \<ge> fileSize (r_transferInfo r) then
                    emit (TransferComplete (r_transferId r) (r_filePath r)
                            (fileName (r_transferInfo r))) s1
                  else s1))"

definition ack :: "bool \<Rightarrow> buffer" where
  \<open>ack accepted =
     (if accepted then ''{"accepted":true}'' else ''{"accepted":false}'') @ [CHR 0x00]\<close>

text \<open>
  \<^verbatim>\<open>acceptTransfer\<close> and \<^verbatim>\<open>rejectTransfer\<close> read \<^verbatim>\<open>transferInfo.transferId\<close> of the pending
  offer first: that read throws a \<^verbatim>\<open>TypeError\<close> when \<^verbatim>\<open>transferInfo\<close> is \<^verbatim>\<open>null\<close>, and the
  exception leaves the function (\<open>Inl\<close>) before anything is changed.
\<close>

definition acceptTransfer :: "builtins \<Rightarrow> string \<Rightarrow> ft_state \<Rightarrow> js_error + bool \<times> ft_state" where
  "acceptTransfer node tid s =
     (case pendingTransfer s of
        None \<Rightarrow> Inr (False, s)
      | Some p \<Rightarrow>
          (case p_transferInfo p of
             None \<Rightarrow> Inl TypeError
           | Some info \<Rightarrow>
               if transferId info \<noteq> tid then Inr (False, s)
               else
                 let s1 = socket_write (p_socket p) (ack True) s;
                     filePath = path_join node (receivePath s1) (fileName info);
                     (fileStream, s2) = createWriteStream filePath s1;
                     s3 = s2\<lparr>activeTransfers := (activeTransfers s2)(tid \<mapsto>
                               \<lparr>a_fileStream = fileStream, a_filePath = filePath,
                                a_totalSize = fileSize info, a_receivedBytes = 0\<rparr>)\<rparr>;
                     receivedBytes = (if length (p_buffer p) > 0 then length (p_buffer p) else 0);
                     s4 = (if length (p_buffer p) > 0
                           then emitProgress tid receivedBytes (fileSize info) receiving
                                  (fileStream_write fileStream (p_buffer p) s3)
                           else s3);
                     s5 = update_conn (p_socket p)
                            (\<lambda>c. c\<lparr>c_receiver :=
                                     Some \<lparr>r_transferId = tid, r_transferInfo = info,
                                           r_fileStream = fileStream, r_filePath = filePath,
                                           r_receivedBytes = receivedBytes\<rparr>\<rparr>) s4;
                     s6 = socket_resume (p_socket p) s5
                 in Inr (True, s6\<lparr>pendingTransfer := None\<rparr>)))"

definition rejectTransfer :: "string \<Rightarrow> ft_state \<Rightarrow> js_error + bool \<times> ft_state" where
  "rejectTransfer tid s =
     (case pendingTransfer s of
        None \<Rightarrow> Inr (False, s)
      | Some p \<Rightarrow>
          (case p_transferInfo p of
             None \<Rightarrow> Inl TypeError
           | Some info \<Rightarrow>
               if transferId info \<noteq> tid then Inr (False, s)
               else
                 let s1 = socket_write (p_socket p) (ack False) s;
                     s2 = socket_end (p_socket p) s1
                 in Inr (True, s2\<lparr>pendingTransfer := None\<rparr>)))"

text \<open>
  \<^verbatim>\<open>cancelTransfer\<close>. The \<^verbatim>\<open>catch\<close> around \<^verbatim>\<open>fs.unlinkSync\<close> has an empty body: whatever
  the error, the function goes on.
\<close>

definition cancelTransfer :: "string \<Rightarrow> ft_state \<Rightarrow> bool \<times> ft_state" where
  "cancelTransfer tid s =
     (case activeTransfers s tid of
        None \<Rightarrow> (False, s)
      | Some transfer \<Rightarrow>
          let s1 = fileStream_close (a_fileStream transfer) s;
              s2 = (case unlinkSync (a_filePath transfer) s1 of
                      Inl err \<Rightarrow> s1
                    | Inr s' \<Rightarrow> s');
              s3 = s2\<lparr>activeTransfers := (activeTransfers s2)(tid := None)\<rparr>
          in (True, emit (TransferCancelled tid) s3))"

definition getReceivePath :: "ft_state \<Rightarrow> string" where
  "getReceivePath s = receivePath s"

subsection \<open>Events\<close>

text \<open>
  A \<^verbatim>\<open>data\<close> event of a socket runs its listeners in the order they were registered.
  A socket that is not paused reads the chunks that have arrived, one \<^verbatim>\<open>data\<close> event
  each, until a listener pauses it; what is left stays unread in the socket.
\<close>

definition emit_data :: "builtins \<Rightarrow> nat \<Rightarrow> buffer \<Rightarrow> ft_state \<Rightarrow> ft_state" where
  "emit_data node sid chunk s = accept_onData sid chunk (connection_onData node sid chunk s)"

fun read_chunks :: "builtins \<Rightarrow> nat \<Rightarrow> buffer list \<Rightarrow> ft_state \<Rightarrow> ft_state" where
  "read_chunks node sid [] s = s"
| "read_chunks node sid (chunk # rest) s =
     (case conns s sid of
        None \<Rightarrow> s
      | Some c \<Rightarrow>
          if c_paused c \<or> c_closed c
          then update_conn sid (\<lambda>c. c\<lparr>c_unread := chunk # rest\<rparr>) s
          else read_chunks node sid rest (emit_data node sid chunk s))"

definition drain :: "builtins \<Rightarrow> nat \<Rightarrow> ft_state \<Rightarrow> ft_state" where
  "drain node sid s =
     (case conns s sid of
        None \<Rightarrow> s
      | Some c \<Rightarrow> read_chunks node sid (c_unread c) (update_conn sid (\<lambda>c. c\<lparr>c_unread := []\<rparr>) s))"

text \<open>
  What can happen to the receiving side: a new inbound connection; a chunk arriving on a
  socket, read at once unless the socket is paused; a turn of the event loop in which a
  socket reads what it holds; the close of a socket; the open of a write stream
  completing, with or without success; and the host's three calls, an exception of which
  goes to the caller and leaves the state as it was. The \<^verbatim>\<open>close\<close> and \<^verbatim>\<open>error\<close>
  listeners of \<^verbatim>\<open>handleIncomingConnection\<close> test a \<^verbatim>\<open>fileStream\<close> variable that is never
  assigned, so they do nothing.
\<close>

datatype op =
    Connect nat
  | Data nat buffer
  | Drain nat
  | Close nat
  | Open nat bool
  | Accept string
  | Reject string
  | Cancel string

fun step :: "builtins \<Rightarrow> op \<Rightarrow> ft_state \<Rightarrow> ft_state" where
  "step node (Connect sid) s =
     (if conns s sid = None then handleIncomingConnection sid s else s)"
| "step node (Data sid chunk) s =
     (case conns s sid of
        None \<Rightarrow> s
      | Some c \<Rightarrow>
          if c_closed c then s
          else drain node sid (update_conn sid (\<lambda>c. c\<lparr>c_unread := c_unread c @ [chunk]\<rparr>) s))"
| "step node (Drain sid) s = drain node sid s"
| "step node (Close sid) s =
     (case conns s sid of
        None \<Rightarrow> s
      | Some c \<Rightarrow>
          if c_closed c then s
          else accept_onClose sid (update_conn sid (\<lambda>c. c\<lparr>c_closed := True\<rparr>) s))"
| "step node (Open fid ok) s = fileStream_open fid ok s"
| "step node (Accept tid) s =
     (case acceptTransfer node tid s of Inl err \<Rightarrow> s | Inr r \<Rightarrow> snd r)"
| "step node (Reject tid) s =
     (case rejectTransfer tid s of Inl err \<Rightarrow> s | Inr r \<Rightarrow> snd r)"
| "step node (Cancel tid) s = snd (cancelTransfer tid s)"

fun run :: "builtins \<Rightarrow> op list \<Rightarrow> ft_state \<Rightarrow> ft_state" where
  "run node [] s = s"
| "run node (x # xs) s = run node xs (step node x s)"

subsection \<open>Sending\<close>




text \<open>The progress values among a list of events, in the order they were emitted.\<close>

fun progress_values :: "event list \<Rightarrow> jsnum list" where
  "progress_values [] = []"
| "progress_values (TransferProgress tid bytes tot progress ty # es) = progress # progress_values es"
| "progress_values (e # es) = progress_values es"


text \<open>The completion events for a transfer among a list of events.\<close>

definition completions :: "string \<Rightarrow> event list \<Rightarrow> event list" where
  "completions tid es =
     filter (\<lambda>e. case e of TransferComplete t p n \<Rightarrow> t = tid | _ \<Rightarrow> False) es"

section \<open>Eviction\<close>

lemma cleanup_loop_eq:
  "cleanup_loop now todo (devs, evs, changed) =
     (filter (\<lambda>e. fst e \<notin> fst ` set (filter (\<lambda>e. stale now (snd e)) todo)) devs,
      evs @ map (\<lambda>e. DeviceLost (snd e)) (filter (\<lambda>e. stale now (snd e)) todo),
      changed \<or> (\<exists>e \<in> set todo. stale now (snd e)))"
proof (induction todo arbitrary: devs evs changed)
  case Nil
  show ?case by simp
next
  case (Cons a todo)
  obtain k info where a: "a = (k, info)" by (cases a)
  show ?case
  proof (cases "stale now info")
    case True
    have "filter (\<lambda>e. fst e \<notin> fst ` set (filter (\<lambda>e. stale now (snd e)) todo))
            (AList.delete k devs) =
          filter (\<lambda>e. fst e \<notin> fst ` set (filter (\<lambda>e. stale now (snd e)) (a # todo))) devs"
      using True a by (auto simp: AList.delete_eq intro: filter_cong)
    with True a Cons.IH show ?thesis by simp
  next
    case False
    with a Cons.IH show ?thesis by simp
  qed
qed

lemma filter_by_key:
  assumes "distinct (map fst devs)"
  shows "filter (\<lambda>e. fst e \<notin> fst ` set (filter P devs)) devs = filter (\<lambda>e. \<not> P e) devs"
proof (rule filter_cong [OF refl])
  fix e assume e: "e \<in> set devs"
  have "fst e \<in> fst ` set (filter P devs) \<longleftrightarrow> P e"
  proof
    assume "fst e \<in> fst ` set (filter P devs)"
    then obtain e' where e': "e' \<in> set devs" "P e'" "fst e' = fst e" by auto
    from assms e e' have "e' = e"
      by (metis eq_key_imp_eq_value prod.collapse)
    with e' show "P e" by simp
  next
    assume "P e"
    with e show "fst e \<in> fst ` set (filter P devs)" by auto
  qed
  then show "(fst e \<notin> fst ` set (filter P devs)) = (\<not> P e)" by simp
qed

text \<open>
  The keys of the table are unique in every state the instance can reach, as those of a
  \<^verbatim>\<open>Map\<close> are.
\<close>

lemma d_step_distinct:
  assumes "distinct (map fst (devices s))"
  shows "distinct (map fst (devices (d_step x s)))"
proof (cases x)
  case (Message msg addr now)
  with assms show ?thesis
    by (auto simp: handleMessage_def Let_def distinct_update split: option.splits)
next
  case (Sweep now)
  with assms show ?thesis
    by (simp add: cleanupStaleDevices_def cleanup_loop_eq distinct_map_filter)
qed (use assms in \<open>auto simp: start_def stop_def updateEmail_def updateDeviceName_def\<close>)

lemma d_run_distinct:
  "distinct (map fst (devices s)) \<Longrightarrow> distinct (map fst (devices (d_run xs s)))"
  by (induction xs arbitrary: s) (simp_all add: d_step_distinct)

lemma reachable_distinct:
  "distinct (map fst (devices (d_run xs DeviceDiscovery_constructor)))"
  by (rule d_run_distinct) (simp add: DeviceDiscovery_constructor_def)

text \<open>
  C4. A sweep at time \<open>now\<close> removes exactly the records whose \<open>lastSeen\<close> is more than
  \<open>DEVICE_TIMEOUT\<close> = 10000 ms old, so every record left is at most 10000 ms old; it emits
  one \<open>DeviceLost\<close> per removed record, in table order, and then one \<open>DevicesUpdated\<close>
  snapshot of the remaining table if and only if a record was removed.
\<close>

theorem C4_sweep_evicts_stale:
  assumes "distinct (map fst (devices s))"
  shows "devices (fst (cleanupStaleDevices now s)) =
           filter (\<lambda>e. \<not> now - lastSeen (snd e) > 10000) (devices s)
       \<and> snd (cleanupStaleDevices now s) =
           map (\<lambda>e. DeviceLost (snd e))
             (filter (\<lambda>e. now - lastSeen (snd e) > 10000) (devices s)) @
           (if \<exists>e \<in> set (devices s). now - lastSeen (snd e) > 10000
            then [DevicesUpdated (getDeviceList (fst (cleanupStaleDevices now s)))] else [])
       \<and> (\<forall>i \<in> set (getDeviceList (fst (cleanupStaleDevices now s))).
            now \<le> lastSeen i + 10000)"
proof -
  have "devices (fst (cleanupStaleDevices now s)) =
          filter (\<lambda>e. \<not> stale now (snd e)) (devices s)"
    using filter_by_key [OF assms, of "\<lambda>e. stale now (snd e)"]
    by (simp add: cleanupStaleDevices_def cleanup_loop_eq Let_def)
  moreover have "snd (cleanupStaleDevices now s) =
      map (\<lambda>e. DeviceLost (snd e)) (filter (\<lambda>e. stale now (snd e)) (devices s)) @
      (if \<exists>e \<in> set (devices s). stale now (snd e)
       then [DevicesUpdated (getDeviceList (fst (cleanupStaleDevices now s)))] else [])"
    by (simp add: cleanupStaleDevices_def cleanup_loop_eq Let_def)
  ultimately show ?thesis
    by (auto simp: stale_def DEVICE_TIMEOUT_def getDeviceList_def)
qed

theorem C4_sweep_evicts_stale_witness:
  "distinct (map fst (devices (DeviceDiscovery_constructor\<lparr>devices :=
       [(''A1'', \<lparr>deviceId = ''A1'', deviceName = ''PC-A'', email = ''a@x'', ip = ''10.0.0.2'', lastSeen = 5000\<rparr>),
        (''B2'', \<lparr>deviceId = ''B2'', deviceName = ''PC-B'', email = ''b@x'', ip = ''10.0.0.3'', lastSeen = 12000\<rparr>)]\<rparr>)))
   \<and> devices (fst (cleanupStaleDevices 20000 (DeviceDiscovery_constructor\<lparr>devices :=
       [(''A1'', \<lparr>deviceId = ''A1'', deviceName = ''PC-A'', email = ''a@x'', ip = ''10.0.0.2'', lastSeen = 5000\<rparr>),
        (''B2'', \<lparr>deviceId = ''B2'', deviceName = ''PC-B'', email = ''b@x'', ip = ''10.0.0.3'', lastSeen = 12000\<rparr>)]\<rparr>))) =
       [(''B2'', \<lparr>deviceId = ''B2'', deviceName = ''PC-B'', email = ''b@x'', ip = ''10.0.0.3'', lastSeen = 12000\<rparr>)]
   \<and> snd (cleanupStaleDevices 20000 (DeviceDiscovery_constructor\<lparr>devices :=
       [(''A1'', \<lparr>deviceId = ''A1'', deviceName = ''PC-A'', email = ''a@x'', ip = ''10.0.0.2'', lastSeen = 5000\<rparr>),
        (''B2'', \<lparr>deviceId = ''B2'', deviceName = ''PC-B'', email = ''b@x'', ip = ''10.0.0.3'', lastSeen = 12000\<rparr>)]\<rparr>)) =
       [DeviceLost \<lparr>deviceId = ''A1'', deviceName = ''PC-A'', email = ''a@x'', ip = ''10.0.0.2'', lastSeen = 5000\<rparr>,
        DevicesUpdated [\<lparr>deviceId = ''B2'', deviceName = ''PC-B'', email = ''b@x'', ip = ''10.0.0.3'', lastSeen = 12000\<rparr>]]"
  using C4_sweep_evicts_stale [of "DeviceDiscovery_constructor\<lparr>devices :=
       [(''A1'', \<lparr>deviceId = ''A1'', deviceName = ''PC-A'', email = ''a@x'', ip = ''10.0.0.2'', lastSeen = 5000\<rparr>),
        (''B2'', \<lparr>deviceId = ''B2'', deviceName = ''PC-B'', email = ''b@x'', ip = ''10.0.0.3'', lastSeen = 12000\<rparr>)]\<rparr>" 20000]
  by (simp add: getDeviceList_def)

section \<open>Upsert by device id\<close>

lemma handleMessage_discard:
  "msg = None \<or> (\<exists>data. msg = Some data \<and> (p_type data \<noteq> ''presence'' \<or> Some (p_deviceId data) = myDeviceId s))
   \<Longrightarrow> handleMessage msg addr now s = (s, [])"
  by (auto simp: handleMessage_def)

lemma handleMessage_upsert:
  assumes "p_type data = ''presence''" "myDeviceId s \<noteq> Some (p_deviceId data)"
  shows "handleMessage (Some data) addr now s =
     (s\<lparr>devices := AList.update (p_deviceId data)
            \<lparr>deviceId = p_deviceId data, deviceName = p_deviceName data,
              email = p_email data, ip = addr, lastSeen = now\<rparr> (devices s)\<rparr>,
      (if has (devices s) (p_deviceId data) then []
       else [DeviceFound \<lparr>deviceId = p_deviceId data, deviceName = p_deviceName data,
              email = p_email data, ip = addr, lastSeen = now\<rparr>]) @
      [DevicesUpdated (map snd (AList.update (p_deviceId data)
            \<lparr>deviceId = p_deviceId data, deviceName = p_deviceName data,
              email = p_email data, ip = addr, lastSeen = now\<rparr> (devices s)))])"
  using assms by (auto simp: handleMessage_def Let_def getDeviceList_def)

lemma count_key_update:
  "distinct (map fst al) \<Longrightarrow> length (filter (\<lambda>e. fst e = k) (AList.update k v al)) = 1"
proof (induction al)
  case Nil
  then show ?case by simp
next
  case (Cons a al)
  then show ?case
  proof (cases "fst a = k")
    case True
    with Cons.prems have "filter (\<lambda>e. fst e = k) al = []"
      by (force simp: filter_empty_conv image_iff)
    with True show ?thesis by (cases a) simp
  next
    case False
    with Cons show ?thesis by (cases a) simp
  qed
qed

lemma handleMessages_same_id:
  assumes "msgs \<noteq> []"
    and "\<forall>m \<in> set msgs. \<exists>data. fst m = Some data \<and> p_type data = ''presence'' \<and> p_deviceId data = d"
    and "myDeviceId s \<noteq> Some d"
    and "distinct (map fst (devices s))"
  shows "myDeviceId (handleMessages msgs s) = myDeviceId s
       \<and> distinct (map fst (devices (handleMessages msgs s)))
       \<and> length (filter (\<lambda>e. fst e = d) (devices (handleMessages msgs s))) = 1
       \<and> (\<exists>data. fst (last msgs) = Some data \<and>
            map_of (devices (handleMessages msgs s)) d =
              Some \<lparr>deviceId = d, deviceName = p_deviceName data, email = p_email data,
                    ip = fst (snd (last msgs)), lastSeen = snd (snd (last msgs))\<rparr>)"
  using assms
proof (induction msgs arbitrary: s)
  case Nil
  then show ?case by simp
next
  case (Cons m msgs)
  obtain msg addr now where m: "m = (msg, addr, now)" by (cases m)
  from Cons.prems(2) m obtain data where
    data: "msg = Some data" "p_type data = ''presence''" "p_deviceId data = d"
    by auto
  let ?info = "\<lparr>deviceId = d, deviceName = p_deviceName data, email = p_email data,
                 ip = addr, lastSeen = now\<rparr>"
  let ?s1 = "fst (handleMessage msg addr now s)"
  have s1: "?s1 = s\<lparr>devices := AList.update d ?info (devices s)\<rparr>"
    using handleMessage_upsert [of data s addr now] data Cons.prems(3) by simp
  have s1_id: "myDeviceId ?s1 \<noteq> Some d" and s1_id': "myDeviceId ?s1 = myDeviceId s"
    using s1 Cons.prems(3) by simp_all
  have s1_dist: "distinct (map fst (devices ?s1))"
    using s1 Cons.prems(4) by (simp add: distinct_update)
  show ?case
  proof (cases "msgs = []")
    case True
    with m data s1 s1_dist Cons.prems(4) show ?thesis
      by (simp add: count_key_update update_conv')
  next
    case False
    from Cons.prems(2) have "\<forall>m \<in> set msgs. \<exists>data. fst m = Some data \<and> p_type data = ''presence'' \<and> p_deviceId data = d"
      by simp
    from Cons.IH [OF False this s1_id s1_dist]
    have IH: "myDeviceId (handleMessages msgs ?s1) = myDeviceId ?s1
       \<and> distinct (map fst (devices (handleMessages msgs ?s1)))
       \<and> length (filter (\<lambda>e. fst e = d) (devices (handleMessages msgs ?s1))) = 1
       \<and> (\<exists>data. fst (last msgs) = Some data \<and>
            map_of (devices (handleMessages msgs ?s1)) d =
              Some \<lparr>deviceId = d, deviceName = p_deviceName data, email = p_email data,
                    ip = fst (snd (last msgs)), lastSeen = snd (snd (last msgs))\<rparr>)" .
    have run: "handleMessages (m # msgs) s = handleMessages msgs ?s1"
      using m by simp
    have lst: "last (m # msgs) = last msgs"
      using False by simp
    show ?thesis
      unfolding run lst using IH s1_id' by (simp only:)

  qed
qed

text \<open>
  C5 (as amended). Presence messages that all carry one \<open>deviceId\<close>, other than the
  instance's own, leave exactly one entry for that id in a table with unique keys, and
  its name, email, ip and lastSeen are those of the last message. Each such message emits
  \<open>DeviceFound\<close> only when the id was absent before the upsert, and then always a
  \<open>DevicesUpdated\<close> snapshot of the table after the upsert.
\<close>

theorem C5_upsert_by_deviceId:
  assumes "msgs \<noteq> []"
    and "\<forall>m \<in> set msgs. \<exists>data. fst m = Some data \<and> p_type data = ''presence'' \<and> p_deviceId data = d"
    and "myDeviceId s \<noteq> Some d"
    and "distinct (map fst (devices s))"
  shows "length (filter (\<lambda>e. fst e = d) (devices (handleMessages msgs s))) = 1
       \<and> (\<exists>data. fst (last msgs) = Some data \<and>
            map_of (devices (handleMessages msgs s)) d =
              Some \<lparr>deviceId = d, deviceName = p_deviceName data, email = p_email data,
                    ip = fst (snd (last msgs)), lastSeen = snd (snd (last msgs))\<rparr>)
       \<and> (\<forall>m \<in> set msgs. \<forall>t. myDeviceId t = myDeviceId s \<longrightarrow>
            (\<exists>data. fst m = Some data \<and>
               snd (handleMessage (fst m) (fst (snd m)) (snd (snd m)) t) =
                 (if has (devices t) d then []
                  else [DeviceFound \<lparr>deviceId = d, deviceName = p_deviceName data,
                          email = p_email data, ip = fst (snd m), lastSeen = snd (snd m)\<rparr>]) @
                 [DevicesUpdated (getDeviceList (fst (handleMessage (fst m) (fst (snd m)) (snd (snd m)) t)))]))"
proof -
  have "\<forall>m \<in> set msgs. \<forall>t. myDeviceId t = myDeviceId s \<longrightarrow>
            (\<exists>data. fst m = Some data \<and>
               snd (handleMessage (fst m) (fst (snd m)) (snd (snd m)) t) =
                 (if has (devices t) d then []
                  else [DeviceFound \<lparr>deviceId = d, deviceName = p_deviceName data,
                          email = p_email data, ip = fst (snd m), lastSeen = snd (snd m)\<rparr>]) @
                 [DevicesUpdated (getDeviceList (fst (handleMessage (fst m) (fst (snd m)) (snd (snd m)) t)))])"
  proof (intro ballI allI impI)
    fix m :: "presence option \<times> string \<times> int" and t :: discovery
    assume m: "m \<in> set msgs" and t: "myDeviceId t = myDeviceId s"
    from assms(2) m obtain data where
      data: "fst m = Some data" "p_type data = ''presence''" "p_deviceId data = d"
      by auto
    from t assms(3) have ne: "myDeviceId t \<noteq> Some (p_deviceId data)"
      using data by simp
    from handleMessage_upsert [of data t, OF data(2) ne] data
    show "\<exists>data. fst m = Some data \<and>
               snd (handleMessage (fst m) (fst (snd m)) (snd (snd m)) t) =
                 (if has (devices t) d then []
                  else [DeviceFound \<lparr>deviceId = d, deviceName = p_deviceName data,
                          email = p_email data, ip = fst (snd m), lastSeen = snd (snd m)\<rparr>]) @
                 [DevicesUpdated (getDeviceList (fst (handleMessage (fst m) (fst (snd m)) (snd (snd m)) t)))]"
      by (simp add: getDeviceList_def)
  qed
  with handleMessages_same_id [OF assms] show ?thesis
    by blast
qed

theorem C5_upsert_by_deviceId_witness:
  "myDeviceId (start ''B2'' ''PC-B'' (Some ''b@x'') DeviceDiscovery_constructor) \<noteq> Some ''A1''
   \<and> distinct (map fst (devices (start ''B2'' ''PC-B'' (Some ''b@x'') DeviceDiscovery_constructor)))
   \<and> length (filter (\<lambda>e. fst e = ''A1'')
     (devices (handleMessages
        [(Some \<lparr>p_type = ''presence'', p_deviceId = ''A1'', p_deviceName = ''PC-A'', p_email = ''a@x''\<rparr>, ''10.0.0.2'', 1000),
         (Some \<lparr>p_type = ''presence'', p_deviceId = ''A1'', p_deviceName = ''PC-A2'', p_email = ''a2@x''\<rparr>, ''10.0.0.7'', 4000)]
        (start ''B2'' ''PC-B'' (Some ''b@x'') DeviceDiscovery_constructor)))) = 1
   \<and> map_of (devices (handleMessages
        [(Some \<lparr>p_type = ''presence'', p_deviceId = ''A1'', p_deviceName = ''PC-A'', p_email = ''a@x''\<rparr>, ''10.0.0.2'', 1000),
         (Some \<lparr>p_type = ''presence'', p_deviceId = ''A1'', p_deviceName = ''PC-A2'', p_email = ''a2@x''\<rparr>, ''10.0.0.7'', 4000)]
        (start ''B2'' ''PC-B'' (Some ''b@x'') DeviceDiscovery_constructor))) ''A1'' =
      Some \<lparr>deviceId = ''A1'', deviceName = ''PC-A2'', email = ''a2@x'', ip = ''10.0.0.7'', lastSeen = 4000\<rparr>"
  using C5_upsert_by_deviceId [of
        "[(Some \<lparr>p_type = ''presence'', p_deviceId = ''A1'', p_deviceName = ''PC-A'', p_email = ''a@x''\<rparr>, ''10.0.0.2'', 1000),
         (Some \<lparr>p_type = ''presence'', p_deviceId = ''A1'', p_deviceName = ''PC-A2'', p_email = ''a2@x''\<rparr>, ''10.0.0.7'', 4000)]"
        "''A1''" "start ''B2'' ''PC-B'' (Some ''b@x'') DeviceDiscovery_constructor"]
  by (simp add: start_def DeviceDiscovery_constructor_def)

theorem C5_counterexample:
  "devices (handleMessages
      [(Some \<lparr>p_type = ''presence'', p_deviceId = ''B2'', p_deviceName = ''PC-B'', p_email = ''b@x''\<rparr>, ''10.0.0.3'', 1000)]
      (start ''B2'' ''PC-B'' (Some ''b@x'') DeviceDiscovery_constructor)) = []"
  by (simp add: handleMessage_def start_def DeviceDiscovery_constructor_def)

section \<open>Discarded datagrams and self-exclusion\<close>

lemma set_update_subset: "set (AList.update k v al) \<subseteq> insert (k, v) (set al)"
  by (induction al) auto

lemma d_step_invariant:
  assumes "socket s \<longrightarrow> isRunning s"
    and "\<not> isRunning s \<longrightarrow> devices s = []"
    and "\<forall>e \<in> set (devices s). deviceId (snd e) = fst e \<and> Some (fst e) \<noteq> myDeviceId s"
  shows "(socket (d_step x s) \<longrightarrow> isRunning (d_step x s))
       \<and> (\<not> isRunning (d_step x s) \<longrightarrow> devices (d_step x s) = [])
       \<and> (\<forall>e \<in> set (devices (d_step x s)).
             deviceId (snd e) = fst e \<and> Some (fst e) \<noteq> myDeviceId (d_step x s))"
proof (cases x)
  case (Start dId dName mail)
  with assms show ?thesis by (auto simp: start_def)
next
  case Stop
  with assms show ?thesis by (auto simp: stop_def)
next
  case (UpdateEmail mail)
  with assms show ?thesis by (auto simp: updateEmail_def)
next
  case (UpdateDeviceName name)
  with assms show ?thesis by (auto simp: updateDeviceName_def)
next
  case (Message msg addr now)
  show ?thesis
  proof (cases "socket s \<and> (\<exists>data. msg = Some data \<and> p_type data = ''presence'' \<and> myDeviceId s \<noteq> Some (p_deviceId data))")
    case True
    then obtain data where data: "msg = Some data" "p_type data = ''presence''"
        "myDeviceId s \<noteq> Some (p_deviceId data)" and sock: "socket s"
      by auto
    let ?info = "\<lparr>deviceId = p_deviceId data, deviceName = p_deviceName data,
              email = p_email data, ip = addr, lastSeen = now\<rparr>"
    have step: "d_step x s = s\<lparr>devices := AList.update (p_deviceId data) ?info (devices s)\<rparr>"
      using Message sock data handleMessage_upsert [OF data(2,3), of addr now] by simp
    have "\<forall>e \<in> set (AList.update (p_deviceId data) ?info (devices s)).
            deviceId (snd e) = fst e \<and> Some (fst e) \<noteq> myDeviceId s"
      using set_update_subset [of "p_deviceId data" ?info "devices s"] assms(3) data(3)
      by auto
    with step assms(1,2) sock show ?thesis by auto
  next
    case False
    then have "d_step x s = s"
      using Message handleMessage_discard [of msg s addr now]
      by (cases msg) auto
    with assms show ?thesis by simp
  qed
next
  case (Sweep now)
  have "devices (d_step x s) =
          filter (\<lambda>e. fst e \<notin> fst ` set (filter (\<lambda>e. stale now (snd e)) (devices s))) (devices s)"
    and "isRunning (d_step x s) = isRunning s" and "socket (d_step x s) = socket s"
    and "myDeviceId (d_step x s) = myDeviceId s"
    using Sweep by (simp_all add: cleanupStaleDevices_def cleanup_loop_eq)
  with assms show ?thesis by auto
qed

lemma d_run_invariant:
  assumes "socket s \<longrightarrow> isRunning s"
    and "\<not> isRunning s \<longrightarrow> devices s = []"
    and "\<forall>e \<in> set (devices s). deviceId (snd e) = fst e \<and> Some (fst e) \<noteq> myDeviceId s"
  shows "\<forall>e \<in> set (devices (d_run xs s)).
             deviceId (snd e) = fst e \<and> Some (fst e) \<noteq> myDeviceId (d_run xs s)"
  using assms
proof (induction xs arbitrary: s)
  case Nil
  then show ?case by simp
next
  case (Cons x xs)
  from d_step_invariant [OF Cons.prems, of x] Cons.IH [of "d_step x s"]
  show ?case by simp
qed

text \<open>
  C6. A datagram that does not parse, or whose type is not \<open>presence\<close>, or whose
  \<open>deviceId\<close> is the instance's own, leaves the instance as it is and emits nothing.
  Consequently, whatever the host calls and whatever arrives after construction, no
  record of \<open>getDeviceList\<close> carries the instance's own \<open>deviceId\<close>.
\<close>

theorem C6_discard_and_self_exclusion:
  "(msg = None \<or> (\<exists>data. msg = Some data \<and>
       (p_type data \<noteq> ''presence'' \<or> Some (p_deviceId data) = myDeviceId s))
     \<longrightarrow> handleMessage msg addr now s = (s, []))
   \<and> (\<forall>i \<in> set (getDeviceList (d_run xs DeviceDiscovery_constructor)).
         Some (deviceId i) \<noteq> myDeviceId (d_run xs DeviceDiscovery_constructor))"
proof -
  have "\<forall>e \<in> set (devices (d_run xs DeviceDiscovery_constructor)).
             deviceId (snd e) = fst e \<and>
             Some (fst e) \<noteq> myDeviceId (d_run xs DeviceDiscovery_constructor)"
    by (rule d_run_invariant) (simp_all add: DeviceDiscovery_constructor_def)
  then have "\<forall>i \<in> set (getDeviceList (d_run xs DeviceDiscovery_constructor)).
         Some (deviceId i) \<noteq> myDeviceId (d_run xs DeviceDiscovery_constructor)"
    by (auto simp: getDeviceList_def)
  with handleMessage_discard [of msg s addr now] show ?thesis by blast
qed

theorem C6_discard_and_self_exclusion_witness:
  "handleMessage
      (Some \<lparr>p_type = ''presence'', p_deviceId = ''B2'', p_deviceName = ''PC-B'', p_email = ''b@x''\<rparr>)
      ''10.0.0.3'' 1000 (start ''B2'' ''PC-B'' (Some ''b@x'') DeviceDiscovery_constructor) =
     (start ''B2'' ''PC-B'' (Some ''b@x'') DeviceDiscovery_constructor, [])
   \<and> getDeviceList (d_run
        [Start ''B2'' ''PC-B'' (Some ''b@x''),
         Message (Some \<lparr>p_type = ''presence'', p_deviceId = ''B2'', p_deviceName = ''PC-B'', p_email = ''b@x''\<rparr>) ''10.0.0.3'' 1000,
         Message (Some \<lparr>p_type = ''presence'', p_deviceId = ''A1'', p_deviceName = ''PC-A'', p_email = ''a@x''\<rparr>) ''10.0.0.2'' 2000]
        DeviceDiscovery_constructor) =
      [\<lparr>deviceId = ''A1'', deviceName = ''PC-A'', email = ''a@x'', ip = ''10.0.0.2'', lastSeen = 2000\<rparr>]
   \<and> myDeviceId (d_run
        [Start ''B2'' ''PC-B'' (Some ''b@x''),
         Message (Some \<lparr>p_type = ''presence'', p_deviceId = ''B2'', p_deviceName = ''PC-B'', p_email = ''b@x''\<rparr>) ''10.0.0.3'' 1000,
         Message (Some \<lparr>p_type = ''presence'', p_deviceId = ''A1'', p_deviceName = ''PC-A'', p_email = ''a@x''\<rparr>) ''10.0.0.2'' 2000]
        DeviceDiscovery_constructor) = Some ''B2''"
  using C6_discard_and_self_exclusion [of
      "Some \<lparr>p_type = ''presence'', p_deviceId = ''B2'', p_deviceName = ''PC-B'', p_email = ''b@x''\<rparr>"
      "start ''B2'' ''PC-B'' (Some ''b@x'') DeviceDiscovery_constructor" "''10.0.0.3''" 1000
      "[Start ''B2'' ''PC-B'' (Some ''b@x''),
         Message (Some \<lparr>p_type = ''presence'', p_deviceId = ''B2'', p_deviceName = ''PC-B'', p_email = ''b@x''\<rparr>) ''10.0.0.3'' 1000,
         Message (Some \<lparr>p_type = ''presence'', p_deviceId = ''A1'', p_deviceName = ''PC-A'', p_email = ''a@x''\<rparr>) ''10.0.0.2'' 2000]"]
  by (simp add: start_def DeviceDiscovery_constructor_def handleMessage_def getDeviceList_def has_def Let_def)

section \<open>Broadcast addresses\<close>

lemma iface_loop_eq:
  "iface_loop ifaces addresses =
     addresses @ map (\<lambda>i. broadcast_of (address i) (netmask i))
       (filter (\<lambda>i. \<not> internal i \<and> family i = ''IPv4'') ifaces)"
  by (induction ifaces arbitrary: addresses) auto

lemma name_loop_eq:
  "name_loop interfaces addresses =
     addresses @ map (\<lambda>i. broadcast_of (address i) (netmask i))
       (filter (\<lambda>i. \<not> internal i \<and> family i = ''IPv4'') (concat (map snd interfaces)))"
  by (induction interfaces arbitrary: addresses) (auto simp: iface_loop_eq)

lemma getBroadcastAddresses_eq:
  "getBroadcastAddresses interfaces =
     (if filter (\<lambda>i. \<not> internal i \<and> family i = ''IPv4'') (concat (map snd interfaces)) = []
      then [[255, 255, 255, 255]]
      else map (\<lambda>i. broadcast_of (address i) (netmask i))
             (filter (\<lambda>i. \<not> internal i \<and> family i = ''IPv4'') (concat (map snd interfaces))))"
  by (simp add: getBroadcastAddresses_def name_loop_eq Let_def)

lemma octet_or_not:
  assumes "0 \<le> a" "a < 256" 
  shows "a OR (NOT m AND 255) = uint ((word_of_int a :: 8 word) OR NOT (word_of_int m))"
proof -
  have a: "take_bit 8 a = a"
    using assms by (simp add: take_bit_int_eq_self)
  have "uint ((word_of_int a :: 8 word) OR NOT (word_of_int m)) =
          take_bit 8 a OR take_bit 8 (NOT m)"
    by (simp add: uint_or uint_word_of_int_eq unsigned_not_eq take_bit_not_take_bit)
  also have "take_bit 8 (NOT m) = NOT m AND 255"
    by (simp add: take_bit_eq_mask mask_eq_exp_minus_1)
  finally show ?thesis by (simp only: a)
qed

lemma broadcast_of_nth:
  assumes "k < length a" "k < length m" "0 \<le> a ! k" "a ! k < 256"
  shows "broadcast_of a m ! k = uint ((word_of_int (a ! k) :: 8 word) OR NOT (word_of_int (m ! k)))"
  using assms octet_or_not [of "a ! k" "m ! k"]
  by (simp add: broadcast_of_def broadcast_octet_def nth_enumerate_eq)

text \<open>
  C9. A broadcast tick of an instance with no email (\<^verbatim>\<open>null\<close> or empty) sends nothing.
  With a socket and an email it sends the presence message, once to port 41234 of each
  address \<open>getBroadcastAddresses\<close> returns: the broadcast address of every interface
  that is not internal and has family IPv4, in the order of \<^verbatim>\<open>os.networkInterfaces()\<close>,
  or only 255.255.255.255 when there is no such interface. A broadcast address has as
  many octets as the interface address, and each octet is the 8-bit \<open>ip OR NOT netmask\<close>.
\<close>

theorem C9_broadcast_tick:
  "((myEmail s = None \<or> myEmail s = Some []) \<longrightarrow> broadcast interfaces now s = [])
   \<and> (socket s \<and> myEmail s = Some mail \<and> mail \<noteq> [] \<longrightarrow>
        broadcast interfaces now s =
          map (\<lambda>addr. \<lparr>dg_message = \<lparr>a_type = ''presence'', a_deviceId = myDeviceId s,
                                       a_deviceName = myDeviceName s, a_email = mail,
                                       a_timestamp = now\<rparr>,
                        dg_port = 41234, dg_address = addr\<rparr>)
            (getBroadcastAddresses interfaces))
   \<and> getBroadcastAddresses interfaces =
        (if filter (\<lambda>i. \<not> internal i \<and> family i = ''IPv4'') (concat (map snd interfaces)) = []
         then [[255, 255, 255, 255]]
         else map (\<lambda>i. broadcast_of (address i) (netmask i))
                (filter (\<lambda>i. \<not> internal i \<and> family i = ''IPv4'') (concat (map snd interfaces))))
   \<and> length (broadcast_of a m) = length a
   \<and> (\<forall>k < length a. k < length m \<and> 0 \<le> a ! k \<and> a ! k < 256 \<longrightarrow>
         broadcast_of a m ! k =
           uint ((word_of_int (a ! k) :: 8 word) OR NOT (word_of_int (m ! k))))"
proof -
  have "(myEmail s = None \<or> myEmail s = Some []) \<longrightarrow> broadcast interfaces now s = []"
    by (auto simp: broadcast_def)
  moreover have "socket s \<and> myEmail s = Some mail \<and> mail \<noteq> [] \<longrightarrow>
        broadcast interfaces now s =
          map (\<lambda>addr. \<lparr>dg_message = \<lparr>a_type = ''presence'', a_deviceId = myDeviceId s,
                                       a_deviceName = myDeviceName s, a_email = mail,
                                       a_timestamp = now\<rparr>,
                        dg_port = 41234, dg_address = addr\<rparr>)
            (getBroadcastAddresses interfaces)"
    by (simp add: broadcast_def DISCOVERY_PORT_def)
  moreover have "length (broadcast_of a m) = length a"
    by (simp add: broadcast_of_def)
  moreover have "\<forall>k < length a. k < length m \<and> 0 \<le> a ! k \<and> a ! k < 256 \<longrightarrow>
         broadcast_of a m ! k =
           uint ((word_of_int (a ! k) :: 8 word) OR NOT (word_of_int (m ! k)))"
    using broadcast_of_nth by blast
  ultimately show ?thesis
    using getBroadcastAddresses_eq [of interfaces] by (simp only: simp_thms)
qed

theorem C9_broadcast_tick_witness:
  "broadcast [(''lo'', [\<lparr>internal = True, family = ''IPv4'', address = [127, 0, 0, 1], netmask = [255, 0, 0, 0]\<rparr>])]
      5000 (start ''B2'' ''PC-B'' None DeviceDiscovery_constructor) = []
   \<and> broadcast
        [(''lo'', [\<lparr>internal = True, family = ''IPv4'', address = [127, 0, 0, 1], netmask = [255, 0, 0, 0]\<rparr>]),
         (''eth0'', [\<lparr>internal = False, family = ''IPv4'', address = [192, 168, 1, 10], netmask = [255, 255, 255, 0]\<rparr>,
                     \<lparr>internal = False, family = ''IPv6'', address = [], netmask = []\<rparr>]),
         (''wlan0'', [\<lparr>internal = False, family = ''IPv4'', address = [10, 20, 30, 40], netmask = [255, 255, 240, 0]\<rparr>])]
        5000 (start ''B2'' ''PC-B'' (Some ''b@x'') DeviceDiscovery_constructor) =
      [\<lparr>dg_message = \<lparr>a_type = ''presence'', a_deviceId = Some ''B2'', a_deviceName = Some ''PC-B'',
                       a_email = ''b@x'', a_timestamp = 5000\<rparr>,
        dg_port = 41234, dg_address = [192, 168, 1, 255]\<rparr>,
       \<lparr>dg_message = \<lparr>a_type = ''presence'', a_deviceId = Some ''B2'', a_deviceName = Some ''PC-B'',
                       a_email = ''b@x'', a_timestamp = 5000\<rparr>,
        dg_port = 41234, dg_address = [10, 20, 31, 255]\<rparr>]
   \<and> getBroadcastAddresses
        [(''lo'', [\<lparr>internal = True, family = ''IPv4'', address = [127, 0, 0, 1], netmask = [255, 0, 0, 0]\<rparr>])] =
      [[255, 255, 255, 255]]"
  using
    C9_broadcast_tick [of "start ''B2'' ''PC-B'' None DeviceDiscovery_constructor"
      "[(''lo'', [\<lparr>internal = True, family = ''IPv4'', address = [127, 0, 0, 1], netmask = [255, 0, 0, 0]\<rparr>])]"
      5000 "''b@x''" "[192, 168, 1, 10]" "[255, 255, 255, 0]"]
    C9_broadcast_tick [of "start ''B2'' ''PC-B'' (Some ''b@x'') DeviceDiscovery_constructor"
      "[(''lo'', [\<lparr>internal = True, family = ''IPv4'', address = [127, 0, 0, 1], netmask = [255, 0, 0, 0]\<rparr>]),
         (''eth0'', [\<lparr>internal = False, family = ''IPv4'', address = [192, 168, 1, 10], netmask = [255, 255, 255, 0]\<rparr>,
                     \<lparr>internal = False, family = ''IPv6'', address = [], netmask = []\<rparr>]),
         (''wlan0'', [\<lparr>internal = False, family = ''IPv4'', address = [10, 20, 30, 40], netmask = [255, 255, 240, 0]\<rparr>])]"
      5000 "''b@x''" "[10, 20, 30, 40]" "[255, 255, 240, 0]"]
  by (simp add: start_def DeviceDiscovery_constructor_def broadcast_of_def broadcast_octet_def enumerate_eq_zip upt_rec)

section \<open>Doubles\<close>


































section \<open>Three runs that diverge from the specification\<close>

lemmas socket_defs =
  update_conn_def socket_write_def socket_end_def socket_pause_def socket_resume_def

lemmas file_defs =
  createWriteStream_def fileStream_open_def fileStream_write_def fileStream_end_def
  fileStream_close_def unlinkSync_def stream_bytes_def

lemmas receive_defs =
  FileTransfer_constructor_def handleIncomingConnection_def new_conn_def connection_onData_def
  accept_onData_def accept_onClose_def acceptTransfer_def rejectTransfer_def cancelTransfer_def
  emitProgress_def emit_def emit_data_def drain_def ack_def

lemma percent_4_4: "percent 4 4 = 100"
  by code_simp

subsection \<open>Completion events\<close>

text \<open>
  C1. An accepted transfer is to emit exactly one completion event. The code emits two
  for a transfer that runs to its end: an accepted transfer of four declared bytes
  receives them in one chunk and then its connection closes; the \<^verbatim>\<open>data\<close> listener of
  \<open>acceptTransfer\<close> emits \<open>TransferComplete\<close> when the count reaches the declared size,
  and its \<^verbatim>\<open>close\<close> listener, whose test is the same, emits it again.
\<close>

theorem C1_completion_fires_twice:
  "completions ''t1''
     (events (run
        \<lparr>JSON_parse = (\<lambda>h. Header \<lparr>transferId = ''t1'', fileName = ''f.bin'', fileSize = 4, senderEmail = ''a@x''\<rparr>),
         path_join = (\<lambda>d f. d @ ''/'' @ f)\<rparr>
        [Connect 1, Data 1 (''{}'' @ [CHR 0x00]), Accept ''t1'', Data 1 ''abcd'', Close 1]
        (FileTransfer_constructor ''/dl''))) =
   [TransferComplete ''t1'' ''/dl/f.bin'' ''f.bin'', TransferComplete ''t1'' ''/dl/f.bin'' ''f.bin'']"
  by (simp add: receive_defs socket_defs file_defs Let_def completions_def progress_of_def percent_4_4)

subsection \<open>A header that is \<^verbatim>\<open>null\<close>\<close>

text \<open>
  C8. \<open>acceptTransfer\<close> and \<open>rejectTransfer\<close> are to return false whenever no offer with
  the given id awaits a decision. A connection that sends the header \<^verbatim>\<open>null\<close> and the
  zero byte leaves a pending offer whose \<^verbatim>\<open>transferInfo\<close> is \<^verbatim>\<open>null\<close>: the slot is
  assigned before the argument of \<^verbatim>\<open>this.emit\<close> throws, and the \<^verbatim>\<open>catch\<close> ends the
  socket without emptying the slot. From then on \<open>acceptTransfer\<close> and \<open>rejectTransfer\<close>
  throw a \<^verbatim>\<open>TypeError\<close> for every id, until another offer overwrites the slot.
\<close>

theorem C8_null_header_throws:
  "pendingTransfer
      (run \<lparr>JSON_parse = (\<lambda>h. if h = ''null'' then Null else Throws), path_join = (\<lambda>d f. d @ ''/'' @ f)\<rparr>
         [Connect 1, Data 1 (''null'' @ [CHR 0x00])] (FileTransfer_constructor ''/dl'')) =
     Some \<lparr>p_socket = 1, p_transferInfo = None, p_buffer = []\<rparr>
   \<and> events
      (run \<lparr>JSON_parse = (\<lambda>h. if h = ''null'' then Null else Throws), path_join = (\<lambda>d f. d @ ''/'' @ f)\<rparr>
         [Connect 1, Data 1 (''null'' @ [CHR 0x00])] (FileTransfer_constructor ''/dl'')) = []
   \<and> acceptTransfer
        \<lparr>JSON_parse = (\<lambda>h. if h = ''null'' then Null else Throws), path_join = (\<lambda>d f. d @ ''/'' @ f)\<rparr> ''t1''
      (run \<lparr>JSON_parse = (\<lambda>h. if h = ''null'' then Null else Throws), path_join = (\<lambda>d f. d @ ''/'' @ f)\<rparr>
         [Connect 1, Data 1 (''null'' @ [CHR 0x00])] (FileTransfer_constructor ''/dl'')) = Inl TypeError
   \<and> rejectTransfer ''t1''
      (run \<lparr>JSON_parse = (\<lambda>h. if h = ''null'' then Null else Throws), path_join = (\<lambda>d f. d @ ''/'' @ f)\<rparr>
         [Connect 1, Data 1 (''null'' @ [CHR 0x00])] (FileTransfer_constructor ''/dl'')) = Inl TypeError"
  by (simp add: receive_defs socket_defs Let_def)

lemma null_pending_throws:
  assumes "pendingTransfer s = Some p" "p_transferInfo p = None"
  shows "acceptTransfer node tid s = Inl TypeError" and "rejectTransfer tid s = Inl TypeError"
  using assms by (simp_all add: acceptTransfer_def rejectTransfer_def)

subsection \<open>Cancelling\<close>

text \<open>
  C3. \<open>cancelTransfer\<close> is to surface a delete failure other than a missing file. A
  transfer is accepted, its file opened and three bytes written, and the file is then
  locked, so that \<^verbatim>\<open>fs.unlinkSync\<close> throws \<open>EPERM\<close>. The empty \<^verbatim>\<open>catch\<close> (commented
  ``Ignore if file doesn't exist'') swallows that error like any other:
  \<open>cancelTransfer\<close> returns true, removes the transfer, emits \<open>TransferCancelled\<close>,
  and the partial file is still there.
\<close>

theorem C3_delete_failure_swallowed:
  "activeTransfers
      ((run \<lparr>JSON_parse = (\<lambda>h. Header \<lparr>transferId = ''t1'', fileName = ''f.bin'', fileSize = 8, senderEmail = ''a@x''\<rparr>),
             path_join = (\<lambda>d f. d @ ''/'' @ f)\<rparr>
         [Connect 1, Data 1 (''{}'' @ [CHR 0x00]), Accept ''t1'', Open 0 True, Data 1 ''abc'']
         (FileTransfer_constructor ''/dl''))
       \<lparr>locked := {''/dl/f.bin''}\<rparr>) ''t1'' =
     Some \<lparr>a_fileStream = 0, a_filePath = ''/dl/f.bin'', a_totalSize = 8, a_receivedBytes = 0\<rparr>
   \<and> unlinkSync ''/dl/f.bin''
      ((run \<lparr>JSON_parse = (\<lambda>h. Header \<lparr>transferId = ''t1'', fileName = ''f.bin'', fileSize = 8, senderEmail = ''a@x''\<rparr>),
             path_join = (\<lambda>d f. d @ ''/'' @ f)\<rparr>
         [Connect 1, Data 1 (''{}'' @ [CHR 0x00]), Accept ''t1'', Open 0 True, Data 1 ''abc'']
         (FileTransfer_constructor ''/dl''))
       \<lparr>locked := {''/dl/f.bin''}\<rparr>) = Inl EPERM
   \<and> fst (cancelTransfer ''t1''
      ((run \<lparr>JSON_parse = (\<lambda>h. Header \<lparr>transferId = ''t1'', fileName = ''f.bin'', fileSize = 8, senderEmail = ''a@x''\<rparr>),
             path_join = (\<lambda>d f. d @ ''/'' @ f)\<rparr>
         [Connect 1, Data 1 (''{}'' @ [CHR 0x00]), Accept ''t1'', Open 0 True, Data 1 ''abc'']
         (FileTransfer_constructor ''/dl''))
       \<lparr>locked := {''/dl/f.bin''}\<rparr>))
   \<and> disk (snd (cancelTransfer ''t1''
      ((run \<lparr>JSON_parse = (\<lambda>h. Header \<lparr>transferId = ''t1'', fileName = ''f.bin'', fileSize = 8, senderEmail = ''a@x''\<rparr>),
             path_join = (\<lambda>d f. d @ ''/'' @ f)\<rparr>
         [Connect 1, Data 1 (''{}'' @ [CHR 0x00]), Accept ''t1'', Open 0 True, Data 1 ''abc'']
         (FileTransfer_constructor ''/dl''))
       \<lparr>locked := {''/dl/f.bin''}\<rparr>))) ''/dl/f.bin'' = Some ''abc''
   \<and> activeTransfers (snd (cancelTransfer ''t1''
      ((run \<lparr>JSON_parse = (\<lambda>h. Header \<lparr>transferId = ''t1'', fileName = ''f.bin'', fileSize = 8, senderEmail = ''a@x''\<rparr>),
             path_join = (\<lambda>d f. d @ ''/'' @ f)\<rparr>
         [Connect 1, Data 1 (''{}'' @ [CHR 0x00]), Accept ''t1'', Open 0 True, Data 1 ''abc'']
         (FileTransfer_constructor ''/dl''))
       \<lparr>locked := {''/dl/f.bin''}\<rparr>))) ''t1'' = None
   \<and> last (events (snd (cancelTransfer ''t1''
      ((run \<lparr>JSON_parse = (\<lambda>h. Header \<lparr>transferId = ''t1'', fileName = ''f.bin'', fileSize = 8, senderEmail = ''a@x''\<rparr>),
             path_join = (\<lambda>d f. d @ ''/'' @ f)\<rparr>
         [Connect 1, Data 1 (''{}'' @ [CHR 0x00]), Accept ''t1'', Open 0 True, Data 1 ''abc'']
         (FileTransfer_constructor ''/dl''))
       \<lparr>locked := {''/dl/f.bin''}\<rparr>)))) = TransferCancelled ''t1''"
  by (simp add: receive_defs socket_defs file_defs Let_def)

text \<open>
  The partial file also survives a cancel that comes before the open of the write stream
  completes: \<^verbatim>\<open>fs.unlinkSync\<close> finds no file, and the open then creates it.
\<close>

lemma cancel_before_open:
  "disk (run \<lparr>JSON_parse = (\<lambda>h. Header \<lparr>transferId = ''t1'', fileName = ''f.bin'', fileSize = 8, senderEmail = ''a@x''\<rparr>),
             path_join = (\<lambda>d f. d @ ''/'' @ f)\<rparr>
         [Connect 1, Data 1 (''{}'' @ [CHR 0x00] @ ''abc''), Accept ''t1'', Cancel ''t1'', Open 0 True]
         (FileTransfer_constructor ''/dl'')) ''/dl/f.bin'' = Some ''abc''"
  by (simp add: receive_defs socket_defs file_defs Let_def)

section \<open>Reading chunks\<close>

lemma update_conn_same:
  "conns s sid = Some c \<Longrightarrow> update_conn sid f s = s\<lparr>conns := (conns s)(sid \<mapsto> f c)\<rparr>"
  by (simp add: update_conn_def)

lemma conns_triv: "conns s sid = Some c \<Longrightarrow> s\<lparr>conns := (conns s)(sid \<mapsto> c)\<rparr> = s"
  by (simp add: map_upd_triv)

lemma read_chunks_paused:
  assumes "conns s sid = Some c" "c_paused c \<or> c_closed c" "chunks \<noteq> []"
  shows "read_chunks node sid chunks s = s\<lparr>conns := (conns s)(sid \<mapsto> c\<lparr>c_unread := chunks\<rparr>)\<rparr>"
  using assms by (cases chunks) (auto simp: update_conn_def)

lemma step_Data_paused:
  assumes "conns s sid = Some c" "c_paused c" "\<not> c_closed c"
  shows "step node (Data sid chunk) s =
           s\<lparr>conns := (conns s)(sid \<mapsto> c\<lparr>c_unread := c_unread c @ [chunk]\<rparr>)\<rparr>"
proof -
  let ?s2 = "s\<lparr>conns := (conns s)(sid \<mapsto> c\<lparr>c_unread := []\<rparr>)\<rparr>"
  have "step node (Data sid chunk) s = read_chunks node sid (c_unread c @ [chunk]) ?s2"
    using assms by (simp add: drain_def update_conn_def)
  also have "\<dots> = ?s2\<lparr>conns := (conns ?s2)(sid \<mapsto> (c\<lparr>c_unread := []\<rparr>)\<lparr>c_unread := c_unread c @ [chunk]\<rparr>)\<rparr>"
    using assms by (intro read_chunks_paused) simp_all
  finally show ?thesis by simp
qed

lemma run_Data_paused:
  assumes "conns s sid = Some c" "c_paused c" "\<not> c_closed c"
  shows "run node (map (Data sid) es) s =
           s\<lparr>conns := (conns s)(sid \<mapsto> c\<lparr>c_unread := c_unread c @ es\<rparr>)\<rparr>"
  using assms
proof (induction es arbitrary: s c)
  case Nil
  then show ?case by (simp add: map_upd_triv)
next
  case (Cons e es)
  let ?c1 = "c\<lparr>c_unread := c_unread c @ [e]\<rparr>"
  let ?s1 = "s\<lparr>conns := (conns s)(sid \<mapsto> ?c1)\<rparr>"
  have s1: "step node (Data sid e) s = ?s1"
    using Cons.prems by (rule step_Data_paused)
  have A: "run node (map (Data sid) (e # es)) s = run node (map (Data sid) es) ?s1"
    by (simp only: list.map run.simps s1)
  have B: "run node (map (Data sid) es) ?s1 =
          ?s1\<lparr>conns := (conns ?s1)(sid \<mapsto> ?c1\<lparr>c_unread := c_unread ?c1 @ es\<rparr>)\<rparr>"
    using Cons.prems by (intro Cons.IH) simp_all
  have C: "?s1\<lparr>conns := (conns ?s1)(sid \<mapsto> ?c1\<lparr>c_unread := c_unread ?c1 @ es\<rparr>)\<rparr> =
           s\<lparr>conns := (conns s)(sid \<mapsto> c\<lparr>c_unread := c_unread c @ e # es\<rparr>)\<rparr>"
    by simp
  show ?case by (simp only: A B C)
qed

lemma step_Data_flowing:
  assumes "conns s sid = Some c" "\<not> c_paused c" "\<not> c_closed c" "c_unread c = []"
  shows "step node (Data sid chunk) s = read_chunks node sid [chunk] s"
proof -
  have "c\<lparr>c_unread := []\<rparr> = c"
    using assms(4) by simp
  then have "s\<lparr>conns := (conns s)(sid \<mapsto> c\<lparr>c_unread := []\<rparr>)\<rparr> = s"
    using assms(1) conns_triv [of s sid c] by simp
  then show ?thesis
    using assms by (simp add: drain_def update_conn_def del: read_chunks.simps)
qed

lemma run_append: "run node (xs @ ys) s = run node ys (run node xs s)"
  by (induction xs arbitrary: s) simp_all

subsection \<open>Before the header is complete\<close>

lemma indexOf_absent: "x \<notin> set xs \<Longrightarrow> indexOf xs x = None"
  by (induction xs) auto

lemma indexOf_first: "x \<notin> set xs \<Longrightarrow> indexOf (xs @ x # ys) x = Some (length xs)"
  by (induction xs) auto

lemma step_Data_header_incomplete:
  assumes "conns s sid = Some c" "\<not> c_paused c" "\<not> c_closed c" "c_unread c = []"
    and "\<not> c_headerReceived c" "c_receiver c = None" "CHR 0x00 \<notin> set (c_buffer c @ chunk)"
  shows "step node (Data sid chunk) s =
           s\<lparr>conns := (conns s)(sid \<mapsto> c\<lparr>c_buffer := c_buffer c @ chunk\<rparr>)\<rparr>"
  unfolding step_Data_flowing [OF assms(1-4)]
  using assms indexOf_absent [of "CHR 0x00" "c_buffer c @ chunk"]
  by (simp add: emit_data_def connection_onData_def accept_onData_def socket_defs Let_def)

lemma step_Data_header_complete:
  assumes "conns s sid = Some c" "\<not> c_paused c" "\<not> c_closed c" "c_unread c = []"
    and "\<not> c_headerReceived c" "c_receiver c = None"
    and "c_buffer c @ chunk = hdr @ CHR 0x00 # rest" "CHR 0x00 \<notin> set hdr"
    and "JSON_parse node hdr = Header info"
  shows "step node (Data sid chunk) s =
           s\<lparr>conns := (conns s)(sid \<mapsto>
                  c\<lparr>c_buffer := rest, c_transferInfo := Some info,
                    c_headerReceived := True, c_paused := True\<rparr>),
             pendingTransfer := Some \<lparr>p_socket = sid, p_transferInfo = Some info, p_buffer = rest\<rparr>,
             events := events s @
               [TransferRequest (senderEmail info) (fileName info) (fileSize info) (transferId info)]\<rparr>"
  unfolding step_Data_flowing [OF assms(1-4)]
  using assms indexOf_first [of "CHR 0x00" hdr rest]
  by (simp add: emit_data_def connection_onData_def accept_onData_def socket_defs Let_def emit_def)

lemma run_Data_header_incomplete:
  assumes "conns s sid = Some c" "\<not> c_paused c" "\<not> c_closed c" "c_unread c = []"
    and "\<not> c_headerReceived c" "c_receiver c = None" "CHR 0x00 \<notin> set (c_buffer c @ concat cs)"
  shows "run node (map (Data sid) cs) s =
           s\<lparr>conns := (conns s)(sid \<mapsto> c\<lparr>c_buffer := c_buffer c @ concat cs\<rparr>)\<rparr>"
  using assms
proof (induction cs arbitrary: s c)
  case Nil
  then have "(conns s)(sid \<mapsto> c) = conns s"
    by (simp add: map_upd_triv)
  then show ?case by simp
next
  case (Cons d cs)
  let ?c1 = "c\<lparr>c_buffer := c_buffer c @ d\<rparr>"
  let ?s1 = "s\<lparr>conns := (conns s)(sid \<mapsto> ?c1)\<rparr>"
  have s1: "step node (Data sid d) s = ?s1"
    using Cons.prems by (intro step_Data_header_incomplete) simp_all
  have B: "run node (map (Data sid) cs) ?s1 =
          ?s1\<lparr>conns := (conns ?s1)(sid \<mapsto> ?c1\<lparr>c_buffer := c_buffer ?c1 @ concat cs\<rparr>)\<rparr>"
    using Cons.prems by (intro Cons.IH) simp_all
  have A: "run node (map (Data sid) (d # cs)) s = run node (map (Data sid) cs) ?s1"
    by (simp only: list.map run.simps s1)
  have C: "?s1\<lparr>conns := (conns ?s1)(sid \<mapsto> ?c1\<lparr>c_buffer := c_buffer ?c1 @ concat cs\<rparr>)\<rparr> =
           s\<lparr>conns := (conns s)(sid \<mapsto> c\<lparr>c_buffer := c_buffer c @ concat (d # cs)\<rparr>)\<rparr>"
    by simp
  show ?case by (simp only: A B C)
qed

lemma run_Data_header:
  assumes "conns s sid = Some new_conn"
    and "cs \<noteq> []" "CHR 0x00 \<notin> set (concat (butlast cs))"
    and "concat cs = hdr @ CHR 0x00 # rest" "CHR 0x00 \<notin> set hdr"
    and "JSON_parse node hdr = Header info"
  shows "run node (map (Data sid) cs) s =
           s\<lparr>conns := (conns s)(sid \<mapsto>
                  new_conn\<lparr>c_buffer := rest, c_transferInfo := Some info,
                    c_headerReceived := True, c_paused := True\<rparr>),
             pendingTransfer := Some \<lparr>p_socket = sid, p_transferInfo = Some info, p_buffer = rest\<rparr>,
             events := events s @
               [TransferRequest (senderEmail info) (fileName info) (fileSize info) (transferId info)]\<rparr>"
proof -
  let ?c1 = "new_conn\<lparr>c_buffer := concat (butlast cs)\<rparr>"
  let ?s1 = "s\<lparr>conns := (conns s)(sid \<mapsto> ?c1)\<rparr>"
  have cs: "cs = butlast cs @ [last cs]"
    using assms(2) by simp
  have s1: "run node (map (Data sid) (butlast cs)) s = ?s1"
    using run_Data_header_incomplete [OF assms(1), of "butlast cs" node] assms(3)
    by (simp add: new_conn_def)
  have "concat (butlast cs) @ last cs = concat cs"
    using cs by (metis append_Nil2 concat.simps(1) concat.simps(2) concat_append)
  then have buf: "c_buffer ?c1 @ last cs = hdr @ CHR 0x00 # rest"
    using assms(4) by simp
  have "step node (Data sid (last cs)) ?s1 =
          ?s1\<lparr>conns := (conns ?s1)(sid \<mapsto>
                  ?c1\<lparr>c_buffer := rest, c_transferInfo := Some info,
                    c_headerReceived := True, c_paused := True\<rparr>),
             pendingTransfer := Some \<lparr>p_socket = sid, p_transferInfo = Some info, p_buffer = rest\<rparr>,
             events := events ?s1 @
               [TransferRequest (senderEmail info) (fileName info) (fileSize info) (transferId info)]\<rparr>"
    using buf assms(5,6) by (intro step_Data_header_complete [where hdr = hdr]) (simp_all add: new_conn_def)
  moreover have "run node (map (Data sid) cs) s = step node (Data sid (last cs)) ?s1"
    using s1 run_append [of node "map (Data sid) (butlast cs)" "[Data sid (last cs)]" s] cs
    by (metis list.simps(8) list.simps(9) map_append run.simps(1) run.simps(2))
  ultimately show ?thesis by (simp add: new_conn_def)
qed

subsection \<open>After the offer was accepted\<close>

lemma progress_values_append:
  "progress_values (xs @ ys) = progress_values xs @ progress_values ys"
  by (induction xs rule: progress_values.induct) simp_all

lemma emit_data_receiving:
  assumes "conns s sid = Some c" "c_headerReceived c" "c_receiver c = Some r"
  shows "conns (emit_data node sid chunk s) sid =
           Some (c\<lparr>c_buffer := c_buffer c @ chunk,
                   c_receiver := Some (r\<lparr>r_receivedBytes := r_receivedBytes r + length chunk\<rparr>)\<rparr>)"
    and "progress_values (events (emit_data node sid chunk s)) =
           progress_values (events s) @
           [progress_of (r_receivedBytes r + length chunk) (fileSize (r_transferInfo r))]"
  using assms
  by (simp_all add: emit_data_def connection_onData_def accept_onData_def socket_defs Let_def
      fileStream_write_def fileStream_end_def emitProgress_def emit_def progress_values_append
      split: option.splits open_state.splits)

lemma emit_data_receiving_stream:
  assumes "conns s sid = Some c" "c_headerReceived c" "c_receiver c = Some r"
    and "streams s (r_fileStream r) = Some w" "\<not> w_ended w" "\<not> w_closed w"
    and "stream_bytes (r_fileStream r) s = Some b"
  shows "stream_bytes (r_fileStream r) (emit_data node sid chunk s) = Some (b @ chunk)"
    and "int (r_receivedBytes r + length chunk) < fileSize (r_transferInfo r) \<Longrightarrow>
           \<exists>w'. streams (emit_data node sid chunk s) (r_fileStream r) = Some w' \<and>
                 \<not> w_ended w' \<and> \<not> w_closed w'"
  using assms
  by (auto simp: emit_data_def connection_onData_def accept_onData_def socket_defs Let_def
      fileStream_write_def fileStream_end_def emitProgress_def emit_def stream_bytes_def
      split: option.splits open_state.splits)

lemma emit_data_receiving_prefix:
  assumes "conns s sid = Some c" "c_headerReceived c" "c_receiver c = Some r"
    and "stream_bytes (r_fileStream r) s = Some b"
  shows "\<exists>tail. stream_bytes (r_fileStream r) (emit_data node sid chunk s) = Some (b @ tail)"
  using assms
  by (auto simp: emit_data_def connection_onData_def accept_onData_def socket_defs Let_def
      fileStream_write_def fileStream_end_def emitProgress_def emit_def stream_bytes_def
      split: option.splits open_state.splits)

lemma fileStream_write_stream:
  assumes "streams s fid = Some w"
  shows "\<exists>w'. streams (fileStream_write f data s) fid = Some w' \<and>
               w_path w' = w_path w \<and> w_open w' = w_open w"
  using assms by (auto simp: fileStream_write_def split: option.splits open_state.splits)

lemma fileStream_end_stream:
  assumes "streams s fid = Some w"
  shows "\<exists>w'. streams (fileStream_end f s) fid = Some w' \<and>
               w_path w' = w_path w \<and> w_open w' = w_open w"
  using assms by (auto simp: fileStream_end_def split: option.splits)

lemma connection_onData_streams: "streams (connection_onData node sid chunk s) = streams s"
  by (simp add: connection_onData_def socket_defs Let_def emit_def split: option.splits parsed.splits)

lemma accept_onData_stream:
  assumes "streams s fid = Some w"
  shows "\<exists>w'. streams (accept_onData sid chunk s) fid = Some w' \<and>
               w_path w' = w_path w \<and> w_open w' = w_open w"
proof (cases "conns s sid")
  case None
  with assms show ?thesis by (simp add: accept_onData_def)
next
  case (Some c)
  show ?thesis
  proof (cases "c_receiver c")
    case None
    with Some assms show ?thesis by (simp add: accept_onData_def)
  next
    case (Some r)
    obtain w1 where w1: "streams (fileStream_write (r_fileStream r) chunk s) fid = Some w1"
        "w_path w1 = w_path w" "w_open w1 = w_open w"
      using fileStream_write_stream [OF assms] by blast
    let ?s3 = "emitProgress (r_transferId r) (r_receivedBytes r + length chunk)
                 (fileSize (r_transferInfo r)) receiving
                 (update_conn sid
                    (\<lambda>c. c\<lparr>c_receiver := Some (r\<lparr>r_receivedBytes := r_receivedBytes r + length chunk\<rparr>)\<rparr>)
                    (fileStream_write (r_fileStream r) chunk s))"
    have s3: "streams ?s3 fid = Some w1"
      using w1(1) by (simp add: emitProgress_def emit_def update_conn_def split: option.splits)
    obtain w2 where w2: "streams (fileStream_end (r_fileStream r) ?s3) fid = Some w2"
        "w_path w2 = w_path w1" "w_open w2 = w_open w1"
      using fileStream_end_stream [OF s3] by blast
    show ?thesis
      using \<open>conns s sid = Some c\<close> Some s3 w1 w2
      by (simp add: accept_onData_def Let_def emit_def)
  qed
qed

lemma emit_data_stream:
  assumes "streams s fid = Some w"
  shows "\<exists>w'. streams (emit_data node sid chunk s) fid = Some w' \<and>
               w_path w' = w_path w \<and> w_open w' = w_open w"
  unfolding emit_data_def
  using assms by (intro accept_onData_stream) (simp add: connection_onData_streams)

lemma read_chunks_receiving_step:
  assumes "conns s sid = Some c" "\<not> c_paused c" "\<not> c_closed c"
  shows "read_chunks node sid (chunk # chunks) s = read_chunks node sid chunks (emit_data node sid chunk s)"
  using assms by simp

lemma read_chunks_receiving_conn:
  assumes "conns s sid = Some c" "\<not> c_paused c" "\<not> c_closed c" "c_headerReceived c"
    and "c_receiver c = Some r"
  shows "conns (read_chunks node sid chunks s) sid =
           Some (c\<lparr>c_buffer := c_buffer c @ concat chunks,
                   c_receiver := Some (r\<lparr>r_receivedBytes := r_receivedBytes r + length (concat chunks)\<rparr>)\<rparr>)"
  using assms
proof (induction chunks arbitrary: s c r)
  case Nil
  then show ?case by simp
next
  case (Cons d chunks)
  let ?s1 = "emit_data node sid d s"
  let ?r1 = "r\<lparr>r_receivedBytes := r_receivedBytes r + length d\<rparr>"
  let ?c1 = "c\<lparr>c_buffer := c_buffer c @ d, c_receiver := Some ?r1\<rparr>"
  have c1: "conns ?s1 sid = Some ?c1"
    by (rule emit_data_receiving(1) [OF Cons.prems(1,4,5)])
  have A: "read_chunks node sid (d # chunks) s = read_chunks node sid chunks ?s1"
    using Cons.prems(1-3) by (rule read_chunks_receiving_step)
  have "conns (read_chunks node sid chunks ?s1) sid =
        Some (?c1\<lparr>c_buffer := c_buffer ?c1 @ concat chunks,
                 c_receiver := Some (?r1\<lparr>r_receivedBytes := r_receivedBytes ?r1 + length (concat chunks)\<rparr>)\<rparr>)"
    using Cons.prems(2-4) by (intro Cons.IH [OF c1]) simp_all
  then show ?case
    unfolding A by (simp add: add.assoc)
qed


lemma read_chunks_append:
  assumes "conns s sid = Some c" "\<not> c_paused c" "\<not> c_closed c" "c_headerReceived c"
    and "c_receiver c = Some r"
  shows "read_chunks node sid (xs @ ys) s = read_chunks node sid ys (read_chunks node sid xs s)"
  using assms
proof (induction xs arbitrary: s c r)
  case Nil
  show ?case by simp
next
  case (Cons d xs)
  let ?s1 = "emit_data node sid d s"
  let ?r1 = "r\<lparr>r_receivedBytes := r_receivedBytes r + length d\<rparr>"
  let ?c1 = "c\<lparr>c_buffer := c_buffer c @ d, c_receiver := Some ?r1\<rparr>"
  have c1: "conns ?s1 sid = Some ?c1"
    by (rule emit_data_receiving(1) [OF Cons.prems(1,4,5)])
  have A: "read_chunks node sid (d # xs) s = read_chunks node sid xs ?s1"
    using Cons.prems(1-3) by (rule read_chunks_receiving_step)
  have B: "read_chunks node sid (d # xs @ ys) s = read_chunks node sid (xs @ ys) ?s1"
    using Cons.prems(1-3) by (rule read_chunks_receiving_step)
  have "read_chunks node sid (xs @ ys) ?s1 = read_chunks node sid ys (read_chunks node sid xs ?s1)"
    using Cons.prems(2-4) by (intro Cons.IH [OF c1]) simp_all
  then show ?case
    by (simp only: A B append_Cons)
qed

lemma run_Data_receiving:
  assumes "conns s sid = Some c" "\<not> c_paused c" "\<not> c_closed c" "c_headerReceived c"
    and "c_receiver c = Some r" "c_unread c = []"
  shows "run node (map (Data sid) ds) s = read_chunks node sid ds s"
  using assms
proof (induction ds arbitrary: s c r)
  case Nil
  show ?case by simp
next
  case (Cons d ds)
  let ?s1 = "emit_data node sid d s"
  let ?r1 = "r\<lparr>r_receivedBytes := r_receivedBytes r + length d\<rparr>"
  let ?c1 = "c\<lparr>c_buffer := c_buffer c @ d, c_receiver := Some ?r1\<rparr>"
  have c1: "conns ?s1 sid = Some ?c1"
    by (rule emit_data_receiving(1) [OF Cons.prems(1,4,5)])
  have "step node (Data sid d) s = read_chunks node sid [d] s"
    using Cons.prems(1,2,3,6) by (rule step_Data_flowing)
  also have "\<dots> = ?s1"
    using Cons.prems(1-3) by simp
  finally have s1: "step node (Data sid d) s = ?s1" .
  have A: "run node (map (Data sid) (d # ds)) s = run node (map (Data sid) ds) ?s1"
    by (simp only: list.map run.simps s1)
  have B: "read_chunks node sid (d # ds) s = read_chunks node sid ds ?s1"
    using Cons.prems(1-3) by (rule read_chunks_receiving_step)
  have "run node (map (Data sid) ds) ?s1 = read_chunks node sid ds ?s1"
    using Cons.prems(2-4,6) by (intro Cons.IH [OF c1]) simp_all
  then show ?case
    by (simp only: A B)
qed

text \<open>
  Reading what the socket holds and then the chunks that arrive is reading all of them
  in that order.
\<close>

lemma run_Drain_Data:
  assumes "conns s sid = Some c" "\<not> c_paused c" "\<not> c_closed c" "c_headerReceived c"
    and "c_receiver c = Some r"
  shows "run node (Drain sid # map (Data sid) ds) s =
           read_chunks node sid (c_unread c @ ds) (s\<lparr>conns := (conns s)(sid \<mapsto> c\<lparr>c_unread := []\<rparr>)\<rparr>)"
proof -
  let ?c0 = "c\<lparr>c_unread := []\<rparr>"
  let ?s0 = "s\<lparr>conns := (conns s)(sid \<mapsto> ?c0)\<rparr>"
  let ?s1 = "read_chunks node sid (c_unread c) ?s0"
  have c0: "conns ?s0 sid = Some ?c0" by simp
  have flags: "\<not> c_paused ?c0" "\<not> c_closed ?c0" "c_headerReceived ?c0" "c_receiver ?c0 = Some r"
    using assms by simp_all
  have s1: "step node (Drain sid) s = ?s1"
    using assms(1) by (simp add: drain_def update_conn_def del: read_chunks.simps)
  have c1: "conns ?s1 sid =
      Some (?c0\<lparr>c_buffer := c_buffer ?c0 @ concat (c_unread c),
               c_receiver := Some (r\<lparr>r_receivedBytes := r_receivedBytes r + length (concat (c_unread c))\<rparr>)\<rparr>)"
    by (rule read_chunks_receiving_conn [OF c0 flags])
  have "run node (map (Data sid) ds) ?s1 = read_chunks node sid ds ?s1"
    using assms(2-4) by (intro run_Data_receiving [OF c1]) simp_all
  also have "\<dots> = read_chunks node sid (c_unread c @ ds) ?s0"
    by (rule read_chunks_append [OF c0 flags, symmetric])
  finally show ?thesis
    by (simp only: run.simps s1)
qed

lemma read_chunks_stream:
  assumes "streams s fid = Some w"
  shows "\<exists>w'. streams (read_chunks node sid chunks s) fid = Some w' \<and>
               w_path w' = w_path w \<and> w_open w' = w_open w"
  using assms
proof (induction node sid chunks s arbitrary: w rule: read_chunks.induct)
  case (1 node sid s)
  then show ?case by simp
next
  case (2 node sid chunk rest s)
  show ?case
  proof (cases "conns s sid")
    case None
    with 2(2) show ?thesis by simp
  next
    case (Some c)
    show ?thesis
    proof (cases "c_paused c \<or> c_closed c")
      case True
      with Some 2(2) show ?thesis
        by (simp add: update_conn_def)
    next
      case False
      obtain w1 where w1: "streams (emit_data node sid chunk s) fid = Some w1"
          "w_path w1 = w_path w" "w_open w1 = w_open w"
        using emit_data_stream [OF 2(2)] by blast
      from 2(1) [OF Some False w1(1)] w1(2,3) Some False show ?thesis
        by simp
    qed
  qed
qed

lemma read_chunks_receiving_prefix:
  assumes "conns s sid = Some c" "\<not> c_paused c" "\<not> c_closed c" "c_headerReceived c"
    and "c_receiver c = Some r"
    and "stream_bytes (r_fileStream r) s = Some b"
  shows "\<exists>tail. stream_bytes (r_fileStream r) (read_chunks node sid chunks s) = Some (b @ tail)"
  using assms
proof (induction chunks arbitrary: s c r b)
  case Nil
  then show ?case by simp
next
  case (Cons d chunks)
  let ?s1 = "emit_data node sid d s"
  let ?r1 = "r\<lparr>r_receivedBytes := r_receivedBytes r + length d\<rparr>"
  let ?c1 = "c\<lparr>c_buffer := c_buffer c @ d, c_receiver := Some ?r1\<rparr>"
  have c1: "conns ?s1 sid = Some ?c1"
    by (rule emit_data_receiving(1) [OF Cons.prems(1,4,5)])
  obtain t1 where b1: "stream_bytes (r_fileStream r) ?s1 = Some (b @ t1)"
    using emit_data_receiving_prefix [OF Cons.prems(1,4,5,6)] by blast
  have A: "read_chunks node sid (d # chunks) s = read_chunks node sid chunks ?s1"
    using Cons.prems(1-3) by (rule read_chunks_receiving_step)
  have "\<exists>tail. stream_bytes (r_fileStream ?r1) (read_chunks node sid chunks ?s1) = Some ((b @ t1) @ tail)"
    using Cons.prems(2-4) b1 by (intro Cons.IH [OF c1]) simp_all
  then show ?case
    unfolding A by auto
qed

lemma read_chunks_receiving_stream:
  assumes "conns s sid = Some c" "\<not> c_paused c" "\<not> c_closed c" "c_headerReceived c"
    and "c_receiver c = Some r"
    and "streams s (r_fileStream r) = Some w" "\<not> w_ended w" "\<not> w_closed w"
    and "stream_bytes (r_fileStream r) s = Some b"
    and "length chunks \<le> 1 \<or>
         int (r_receivedBytes r + length (concat (butlast chunks))) < fileSize (r_transferInfo r)"
  shows "stream_bytes (r_fileStream r) (read_chunks node sid chunks s) = Some (b @ concat chunks)"
  using assms
proof (induction chunks arbitrary: s c r w b)
  case Nil
  then show ?case by simp
next
  case (Cons d chunks)
  let ?s1 = "emit_data node sid d s"
  let ?r1 = "r\<lparr>r_receivedBytes := r_receivedBytes r + length d\<rparr>"
  let ?c1 = "c\<lparr>c_buffer := c_buffer c @ d, c_receiver := Some ?r1\<rparr>"
  have c1: "conns ?s1 sid = Some ?c1"
    by (rule emit_data_receiving(1) [OF Cons.prems(1,4,5)])
  have b1: "stream_bytes (r_fileStream r) ?s1 = Some (b @ d)"
    by (rule emit_data_receiving_stream(1) [OF Cons.prems(1,4,5,6,7,8,9)])
  have A: "read_chunks node sid (d # chunks) s = read_chunks node sid chunks ?s1"
    using Cons.prems(1-3) by (rule read_chunks_receiving_step)
  show ?case
  proof (cases "chunks = []")
    case True
    with b1 show ?thesis
      unfolding A by simp
  next
    case False
    with Cons.prems(10)
    have lt: "int (r_receivedBytes r + length d + length (concat (butlast chunks))) < fileSize (r_transferInfo r)"
      by (cases chunks) (simp_all add: add.assoc)
    then have "int (r_receivedBytes r + length d) < fileSize (r_transferInfo r)"
      by linarith
    then obtain w1 where w1: "streams ?s1 (r_fileStream r) = Some w1" "\<not> w_ended w1" "\<not> w_closed w1"
      using emit_data_receiving_stream(2) [OF Cons.prems(1,4,5,6,7,8,9)] by blast
    have "stream_bytes (r_fileStream ?r1) (read_chunks node sid chunks ?s1) = Some ((b @ d) @ concat chunks)"
      using Cons.prems(2-4) w1 b1 lt
      by (intro Cons.IH [OF c1, where r = ?r1 and w = w1]) simp_all
    then show ?thesis
      unfolding A by simp
  qed
qed

subsection \<open>Accepting an offer\<close>

lemma acceptTransfer_fails:
  assumes "pendingTransfer s = None \<or>
           (\<exists>p info. pendingTransfer s = Some p \<and> p_transferInfo p = Some info \<and> transferId info \<noteq> tid)"
  shows "acceptTransfer node tid s = Inr (False, s)"
  using assms by (auto simp: acceptTransfer_def)

lemma rejectTransfer_fails:
  assumes "pendingTransfer s = None \<or>
           (\<exists>p info. pendingTransfer s = Some p \<and> p_transferInfo p = Some info \<and> transferId info \<noteq> tid)"
  shows "rejectTransfer tid s = Inr (False, s)"
  using assms by (auto simp: rejectTransfer_def)

lemma acceptTransfer_succeeds:
  assumes "pendingTransfer s = Some p" "p_transferInfo p = Some info" "transferId info = tid"
  shows "acceptTransfer node tid s = Inr (True, step node (Accept tid) s)"
    and "pendingTransfer (step node (Accept tid) s) = None"
    and "streams (step node (Accept tid) s) (nextStream s) =
           Some \<lparr>w_path = path_join node (receivePath s) (fileName info), w_open = Opening,
                 w_ended = False, w_closed = False, w_pending = p_buffer p\<rparr>"
    and "disk (step node (Accept tid) s) = disk s"
    and "progress_values (events (step node (Accept tid) s)) =
           progress_values (events s) @
           (if p_buffer p = [] then [] else [progress_of (length (p_buffer p)) (fileSize info)])"
  using assms
  by (simp_all add: acceptTransfer_def Let_def socket_defs createWriteStream_def
      fileStream_write_def emitProgress_def emit_def progress_values_append
      split: option.splits prod.splits)

lemma acceptTransfer_socket:
  assumes "pendingTransfer s = Some p" "p_transferInfo p = Some info" "transferId info = tid"
    and "conns s (p_socket p) = Some c"
  shows "conns (step node (Accept tid) s) (p_socket p) =
     Some (c\<lparr>c_out := c_out c @ [ack True], c_paused := False,
             c_receiver := Some \<lparr>r_transferId = tid, r_transferInfo = info,
                r_fileStream = nextStream s,
                r_filePath = path_join node (receivePath s) (fileName info),
                r_receivedBytes = length (p_buffer p)\<rparr>\<rparr>)"
  using assms
  by (simp add: acceptTransfer_def Let_def socket_defs createWriteStream_def
      fileStream_write_def emitProgress_def emit_def)

lemma rejectTransfer_succeeds:
  assumes "pendingTransfer s = Some p" "p_transferInfo p = Some info" "transferId info = tid"
    and "conns s (p_socket p) = Some c"
  shows "rejectTransfer tid s =
     Inr (True, s\<lparr>conns := (conns s)(p_socket p \<mapsto> c\<lparr>c_out := c_out c @ [ack False], c_ended := True\<rparr>),
                  pendingTransfer := None\<rparr>)"
  using assms by (simp add: rejectTransfer_def Let_def socket_defs)

lemma open_stream_bytes:
  assumes "streams s fid = Some w" "w_open w = Opening"
  shows "disk (fileStream_open fid True s) (w_path w) = stream_bytes fid s"
  using assms by (simp add: fileStream_open_def stream_bytes_def)

lemma opened_stream_bytes:
  assumes "streams s fid = Some w" "w_open w = Opened"
  shows "stream_bytes fid s = disk s (w_path w)"
  using assms by (simp add: stream_bytes_def)


lemma stream_bytes_conns: "stream_bytes fid (s\<lparr>conns := m\<rparr>) = stream_bytes fid s"
  by (simp add: stream_bytes_def split: option.splits open_state.splits)

text \<open>
  A socket that was resumed reads what it held and then the chunks \<open>ds\<close> as they
  arrive.
\<close>

lemma run_Drain_Data_conn:
  assumes "conns s sid = Some c" "\<not> c_paused c" "\<not> c_closed c" "c_headerReceived c"
    and "c_receiver c = Some r"
  shows "conns (run node (Drain sid # map (Data sid) ds) s) sid =
           Some (c\<lparr>c_unread := [], c_buffer := c_buffer c @ concat (c_unread c @ ds),
                   c_receiver := Some (r\<lparr>r_receivedBytes :=
                     r_receivedBytes r + length (concat (c_unread c @ ds))\<rparr>)\<rparr>)"
proof -
  let ?c0 = "c\<lparr>c_unread := []\<rparr>"
  let ?s0 = "s\<lparr>conns := (conns s)(sid \<mapsto> ?c0)\<rparr>"
  have c0: "conns ?s0 sid = Some ?c0" by simp
  have flags: "\<not> c_paused ?c0" "\<not> c_closed ?c0" "c_headerReceived ?c0" "c_receiver ?c0 = Some r"
    using assms by simp_all
  show ?thesis
    unfolding run_Drain_Data [OF assms] read_chunks_receiving_conn [OF c0 flags] by simp
qed


lemma run_Drain_Data_stream:
  assumes "conns s sid = Some c" "\<not> c_paused c" "\<not> c_closed c" "c_headerReceived c"
    and "c_receiver c = Some r"
    and "streams s fid = Some w"
  shows "\<exists>w'. streams (run node (Drain sid # map (Data sid) ds) s) fid = Some w' \<and>
               w_path w' = w_path w \<and> w_open w' = w_open w"
proof -
  let ?s0 = "s\<lparr>conns := (conns s)(sid \<mapsto> c\<lparr>c_unread := []\<rparr>)\<rparr>"
  have "streams ?s0 fid = Some w"
    using assms(6) by simp
  then show ?thesis
    unfolding run_Drain_Data [OF assms(1-5)] by (rule read_chunks_stream)
qed

lemma run_Drain_Data_prefix:
  assumes "conns s sid = Some c" "\<not> c_paused c" "\<not> c_closed c" "c_headerReceived c"
    and "c_receiver c = Some r"
    and "stream_bytes (r_fileStream r) s = Some b"
  shows "\<exists>tail. stream_bytes (r_fileStream r) (run node (Drain sid # map (Data sid) ds) s) =
           Some (b @ tail)"
proof -
  let ?c0 = "c\<lparr>c_unread := []\<rparr>"
  let ?s0 = "s\<lparr>conns := (conns s)(sid \<mapsto> ?c0)\<rparr>"
  have c0: "conns ?s0 sid = Some ?c0" by simp
  have flags: "\<not> c_paused ?c0" "\<not> c_closed ?c0" "c_headerReceived ?c0" "c_receiver ?c0 = Some r"
    using assms by simp_all
  have "stream_bytes (r_fileStream r) ?s0 = Some b"
    using assms(6) by (simp add: stream_bytes_conns)
  then show ?thesis
    unfolding run_Drain_Data [OF assms(1-5)]
    by (rule read_chunks_receiving_prefix [OF c0 flags])
qed

lemma run_Drain_Data_file:
  assumes "conns s sid = Some c" "\<not> c_paused c" "\<not> c_closed c" "c_headerReceived c"
    and "c_receiver c = Some r"
    and "streams s (r_fileStream r) = Some w" "\<not> w_ended w" "\<not> w_closed w"
    and "stream_bytes (r_fileStream r) s = Some b"
    and "length (c_unread c @ ds) \<le> 1 \<or>
         int (r_receivedBytes r + length (concat (butlast (c_unread c @ ds)))) < fileSize (r_transferInfo r)"
  shows "stream_bytes (r_fileStream r) (run node (Drain sid # map (Data sid) ds) s) =
           Some (b @ concat (c_unread c @ ds))"
proof -
  let ?c0 = "c\<lparr>c_unread := []\<rparr>"
  let ?s0 = "s\<lparr>conns := (conns s)(sid \<mapsto> ?c0)\<rparr>"
  have c0: "conns ?s0 sid = Some ?c0" by simp
  have flags: "\<not> c_paused ?c0" "\<not> c_closed ?c0" "c_headerReceived ?c0" "c_receiver ?c0 = Some r"
    using assms by simp_all
  have w0: "streams ?s0 (r_fileStream r) = Some w"
    using assms(6) by simp
  have b0: "stream_bytes (r_fileStream r) ?s0 = Some b"
    using assms(9) by (simp add: stream_bytes_conns)
  show ?thesis
    unfolding run_Drain_Data [OF assms(1-5)]
    by (rule read_chunks_receiving_stream [OF c0 flags w0 assms(7,8) b0 assms(10)])
qed

section \<open>Bytes that arrive before the decision\<close>

text \<open>
  C7. The chunks \<open>cs\<close> of a new connection bring the header \<open>hdr\<close>, its zero byte and
  the bytes \<open>rest\<close>, the zero byte being in the last of them, and the chunks \<open>es\<close> arrive
  after them, before any decision. Nothing of that is dropped: the pending offer holds
  \<open>rest\<close> as its buffer, and the socket, which is paused, holds \<open>es\<close> unread. The offer
  is then accepted, the socket reads what it holds, and the chunks \<open>ds\<close> arrive; the
  destination file is opened either right after the call or after all that. In both
  cases the file starts with \<open>rest\<close>; it is \<open>rest\<close>, then \<open>es\<close>, then \<open>ds\<close>, when the
  declared size was not reached before the last chunk; and the received count is the
  length of all of them.
\<close>

theorem C7_buffered_bytes_preserved:
  assumes "conns s sid = Some new_conn"
    and "cs \<noteq> []" "CHR 0x00 \<notin> set (concat (butlast cs))"
    and "concat cs = hdr @ CHR 0x00 # rest" "CHR 0x00 \<notin> set hdr"
    and "JSON_parse node hdr = Header info"
  shows "pendingTransfer (run node (map (Data sid) (cs @ es)) s) =
            Some \<lparr>p_socket = sid, p_transferInfo = Some info, p_buffer = rest\<rparr>
       \<and> (\<exists>c. conns (run node (map (Data sid) (cs @ es)) s) sid = Some c \<and>
              c_paused c \<and> c_unread c = es \<and> c_out c = [])
       \<and> disk (run node (map (Data sid) (cs @ es) @ [Accept (transferId info), Open (nextStream s) True]) s)
            (path_join node (receivePath s) (fileName info)) = Some rest
       \<and> (\<exists>tail. disk (run node (map (Data sid) (cs @ es) @
                [Accept (transferId info), Open (nextStream s) True, Drain sid] @ map (Data sid) ds) s)
               (path_join node (receivePath s) (fileName info)) = Some (rest @ tail))
       \<and> (\<exists>tail. disk (run node (map (Data sid) (cs @ es) @
                [Accept (transferId info), Drain sid] @ map (Data sid) ds @ [Open (nextStream s) True]) s)
               (path_join node (receivePath s) (fileName info)) = Some (rest @ tail))
       \<and> (length (es @ ds) \<le> 1 \<or>
            int (length rest + length (concat (butlast (es @ ds)))) < fileSize info \<longrightarrow>
            disk (run node (map (Data sid) (cs @ es) @
                [Accept (transferId info), Open (nextStream s) True, Drain sid] @ map (Data sid) ds) s)
              (path_join node (receivePath s) (fileName info)) = Some (rest @ concat es @ concat ds)
          \<and> disk (run node (map (Data sid) (cs @ es) @
                [Accept (transferId info), Drain sid] @ map (Data sid) ds @ [Open (nextStream s) True]) s)
              (path_join node (receivePath s) (fileName info)) = Some (rest @ concat es @ concat ds))
       \<and> (\<exists>c r. conns (run node (map (Data sid) (cs @ es) @
                [Accept (transferId info), Open (nextStream s) True, Drain sid] @ map (Data sid) ds) s) sid = Some c \<and>
              c_receiver c = Some r \<and>
              r_receivedBytes r = length rest + length (concat es) + length (concat ds))
       \<and> (\<exists>c r. conns (run node (map (Data sid) (cs @ es) @
                [Accept (transferId info), Drain sid] @ map (Data sid) ds) s) sid = Some c \<and>
              c_receiver c = Some r \<and>
              r_receivedBytes r = length rest + length (concat es) + length (concat ds))"
proof -
  let ?tid = "transferId info"
  let ?fid = "nextStream s"
  let ?path = "path_join node (receivePath s) (fileName info)"
  let ?p = "\<lparr>p_socket = sid, p_transferInfo = Some info, p_buffer = rest\<rparr>"
  let ?c0 = "new_conn\<lparr>c_buffer := rest, c_transferInfo := Some info,
                    c_headerReceived := True, c_paused := True\<rparr>"
  let ?c1 = "?c0\<lparr>c_unread := es\<rparr>"
  let ?s0 = "run node (map (Data sid) cs) s"
  let ?s1 = "run node (map (Data sid) (cs @ es)) s"
  let ?s2 = "step node (Accept ?tid) ?s1"
  let ?s2o = "fileStream_open ?fid True ?s2"
  let ?w = "\<lparr>w_path = ?path, w_open = Opening, w_ended = False, w_closed = False, w_pending = rest\<rparr>"
  let ?r = "\<lparr>r_transferId = ?tid, r_transferInfo = info, r_fileStream = ?fid,
             r_filePath = ?path, r_receivedBytes = length rest\<rparr>"
  let ?c2 = "?c1\<lparr>c_out := c_out ?c1 @ [ack True], c_paused := False, c_receiver := Some ?r\<rparr>"
  let ?A = "run node (Drain sid # map (Data sid) ds) ?s2o"
  let ?B = "run node (Drain sid # map (Data sid) ds) ?s2"
  let ?ok = "length (es @ ds) \<le> 1 \<or>
            int (length rest + length (concat (butlast (es @ ds)))) < fileSize info"
  have s0: "?s0 = s\<lparr>conns := (conns s)(sid \<mapsto> ?c0), pendingTransfer := Some ?p,
             events := events s @
               [TransferRequest (senderEmail info) (fileName info) (fileSize info) (transferId info)]\<rparr>"
    by (rule run_Data_header [where hdr = hdr]) (fact assms)+
  have c0: "conns ?s0 sid = Some ?c0"
    unfolding s0 by simp
  have "?s1 = run node (map (Data sid) es) ?s0"
    by (simp add: run_append)
  also have "\<dots> = ?s0\<lparr>conns := (conns ?s0)(sid \<mapsto> ?c0\<lparr>c_unread := c_unread ?c0 @ es\<rparr>)\<rparr>"
    by (rule run_Data_paused [OF c0]) (simp_all add: new_conn_def)
  finally have s1: "?s1 = s\<lparr>conns := (conns s)(sid \<mapsto> ?c1), pendingTransfer := Some ?p,
             events := events s @
               [TransferRequest (senderEmail info) (fileName info) (fileSize info) (transferId info)]\<rparr>"
    unfolding s0 by (simp add: new_conn_def)
  have pend: "pendingTransfer ?s1 = Some ?p" and c1: "conns ?s1 (p_socket ?p) = Some ?c1"
    and rp: "receivePath ?s1 = receivePath s" and ns: "nextStream ?s1 = ?fid"
    unfolding s1 by simp_all
  have info: "p_transferInfo ?p = Some info" "transferId info = ?tid"
    by simp_all
  have held: "\<exists>c. conns ?s1 sid = Some c \<and> c_paused c \<and> c_unread c = es \<and> c_out c = []"
    unfolding s1 by (simp add: new_conn_def)
  have c2: "conns ?s2 sid = Some ?c2"
    using acceptTransfer_socket [OF pend info c1, of node] rp ns by simp
  have w2: "streams ?s2 ?fid = Some ?w"
    using acceptTransfer_succeeds(3) [OF pend info, of node] rp ns by simp
  have flags: "\<not> c_paused ?c2" "\<not> c_closed ?c2" "c_headerReceived ?c2" "c_receiver ?c2 = Some ?r"
    by (simp_all add: new_conn_def)
  have unread: "c_unread ?c2 = es"
    by simp
  have b2: "stream_bytes (r_fileStream ?r) ?s2 = Some rest"
    using w2 by (simp add: stream_bytes_def)
  have c2o: "conns ?s2o sid = Some ?c2"
    using c2 w2 by (simp add: fileStream_open_def)
  have w2o: "streams ?s2o ?fid = Some (?w\<lparr>w_open := Opened, w_pending := []\<rparr>)"
    using w2 by (simp add: fileStream_open_def)
  have d2o: "disk ?s2o ?path = Some rest"
    using w2 by (simp add: fileStream_open_def)
  have b2o: "stream_bytes (r_fileStream ?r) ?s2o = Some rest"
    using w2o d2o by (simp add: stream_bytes_def)
  have runA: "run node (map (Data sid) (cs @ es) @
                [Accept ?tid, Open ?fid True, Drain sid] @ map (Data sid) ds) s = ?A"
    by (simp add: run_append del: step.simps(2,3,6)) 
  have runB: "run node (map (Data sid) (cs @ es) @
                [Accept ?tid, Drain sid] @ map (Data sid) ds @ [Open ?fid True]) s =
              fileStream_open ?fid True ?B"
    by (simp add: run_append del: step.simps(2,3,6))
  have runC: "run node (map (Data sid) (cs @ es) @ [Accept ?tid, Drain sid] @ map (Data sid) ds) s = ?B"
    by (simp add: run_append del: step.simps(2,3,6))
  have runD: "run node (map (Data sid) (cs @ es) @ [Accept ?tid, Open ?fid True]) s = ?s2o"
    by (simp add: run_append del: step.simps(2,3,6))
  obtain wA where wA: "streams ?A ?fid = Some wA" "w_path wA = ?path" "w_open wA = Opened"
    using run_Drain_Data_stream [OF c2o flags w2o, of node ds] by auto
  obtain wB where wB: "streams ?B ?fid = Some wB" "w_path wB = ?path" "w_open wB = Opening"
    using run_Drain_Data_stream [OF c2 flags w2, of node ds] by auto
  have fileA: "disk ?A ?path = stream_bytes ?fid ?A"
    using opened_stream_bytes [OF wA(1,3)] wA(2) by simp
  have fileB: "disk (fileStream_open ?fid True ?B) ?path = stream_bytes ?fid ?B"
    using open_stream_bytes [OF wB(1,3)] wB(2) by simp
  have prefixA: "\<exists>tail. disk ?A ?path = Some (rest @ tail)"
    unfolding fileA using run_Drain_Data_prefix [OF c2o flags b2o, of node ds] by simp
  have prefixB: "\<exists>tail. disk (fileStream_open ?fid True ?B) ?path = Some (rest @ tail)"
    unfolding fileB using run_Drain_Data_prefix [OF c2 flags b2, of node ds] by simp
  have exact: "?ok \<longrightarrow> disk ?A ?path = Some (rest @ concat es @ concat ds)
                 \<and> disk (fileStream_open ?fid True ?B) ?path = Some (rest @ concat es @ concat ds)"
  proof
    assume ?ok
    then have ok: "length (c_unread ?c2 @ ds) \<le> 1 \<or>
         int (r_receivedBytes ?r + length (concat (butlast (c_unread ?c2 @ ds)))) < fileSize (r_transferInfo ?r)"
      by simp
    have w2r: "streams ?s2 (r_fileStream ?r) = Some ?w"
      and w2or: "streams ?s2o (r_fileStream ?r) = Some (?w\<lparr>w_open := Opened, w_pending := []\<rparr>)"
      using w2 w2o by simp_all
    have "stream_bytes (r_fileStream ?r) ?A = Some (rest @ concat (c_unread ?c2 @ ds))"
      by (rule run_Drain_Data_file [OF c2o flags w2or _ _ b2o ok]) simp_all
    moreover have "stream_bytes (r_fileStream ?r) ?B = Some (rest @ concat (c_unread ?c2 @ ds))"
      by (rule run_Drain_Data_file [OF c2 flags w2r _ _ b2 ok]) simp_all
    ultimately show "disk ?A ?path = Some (rest @ concat es @ concat ds)
                 \<and> disk (fileStream_open ?fid True ?B) ?path = Some (rest @ concat es @ concat ds)"
      unfolding fileA fileB by simp
  qed
  have count: "\<exists>c r. conns ?B sid = Some c \<and> c_receiver c = Some r \<and>
              r_receivedBytes r = length rest + length (concat es) + length (concat ds)"
    unfolding run_Drain_Data_conn [OF c2 flags] by simp
  have countA: "\<exists>c r. conns ?A sid = Some c \<and> c_receiver c = Some r \<and>
              r_receivedBytes r = length rest + length (concat es) + length (concat ds)"
    unfolding run_Drain_Data_conn [OF c2o flags] by simp
  show ?thesis
    unfolding runA runB runC runD using pend held d2o prefixA prefixB exact countA count
    by (simp only: simp_thms)
qed

theorem C7_buffered_bytes_preserved_witness:
  "conns (handleIncomingConnection 1 (FileTransfer_constructor ''/dl'')) 1 = Some new_conn
   \<and> concat [''{'', ''}'' @ [CHR 0x00] @ ''xy''] = ''{}'' @ CHR 0x00 # ''xy''
   \<and> pendingTransfer
        (run \<lparr>JSON_parse = (\<lambda>h. if h = ''{}'' then Header \<lparr>transferId = ''t1'', fileName = ''f.bin'', fileSize = 8, senderEmail = ''a@x''\<rparr> else Throws),
              path_join = (\<lambda>d f. d @ ''/'' @ f)\<rparr>
           (map (Data 1) ([''{'', ''}'' @ [CHR 0x00] @ ''xy''] @ [''ab'']))
           (handleIncomingConnection 1 (FileTransfer_constructor ''/dl''))) =
       Some \<lparr>p_socket = 1,
             p_transferInfo = Some \<lparr>transferId = ''t1'', fileName = ''f.bin'', fileSize = 8, senderEmail = ''a@x''\<rparr>,
             p_buffer = ''xy''\<rparr>
   \<and> map_option (\<lambda>c. (c_paused c, c_unread c))
        (conns
          (run \<lparr>JSON_parse = (\<lambda>h. if h = ''{}'' then Header \<lparr>transferId = ''t1'', fileName = ''f.bin'', fileSize = 8, senderEmail = ''a@x''\<rparr> else Throws),
                path_join = (\<lambda>d f. d @ ''/'' @ f)\<rparr>
             (map (Data 1) ([''{'', ''}'' @ [CHR 0x00] @ ''xy''] @ [''ab'']))
             (handleIncomingConnection 1 (FileTransfer_constructor ''/dl''))) 1) = Some (True, [''ab''])
   \<and> disk
        (run \<lparr>JSON_parse = (\<lambda>h. if h = ''{}'' then Header \<lparr>transferId = ''t1'', fileName = ''f.bin'', fileSize = 8, senderEmail = ''a@x''\<rparr> else Throws),
              path_join = (\<lambda>d f. d @ ''/'' @ f)\<rparr>
           (map (Data 1) ([''{'', ''}'' @ [CHR 0x00] @ ''xy''] @ [''ab'']) @
              [Accept ''t1'', Open 0 True, Drain 1] @ map (Data 1) [''cd'', ''ef''])
           (handleIncomingConnection 1 (FileTransfer_constructor ''/dl''))) ''/dl/f.bin'' = Some ''xyabcdef''
   \<and> disk
        (run \<lparr>JSON_parse = (\<lambda>h. if h = ''{}'' then Header \<lparr>transferId = ''t1'', fileName = ''f.bin'', fileSize = 8, senderEmail = ''a@x''\<rparr> else Throws),
              path_join = (\<lambda>d f. d @ ''/'' @ f)\<rparr>
           (map (Data 1) ([''{'', ''}'' @ [CHR 0x00] @ ''xy''] @ [''ab'']) @
              [Accept ''t1'', Drain 1] @ map (Data 1) [''cd'', ''ef''] @ [Open 0 True])
           (handleIncomingConnection 1 (FileTransfer_constructor ''/dl''))) ''/dl/f.bin'' = Some ''xyabcdef''
   \<and> map_option (\<lambda>c. map_option r_receivedBytes (c_receiver c))
        (conns
          (run \<lparr>JSON_parse = (\<lambda>h. if h = ''{}'' then Header \<lparr>transferId = ''t1'', fileName = ''f.bin'', fileSize = 8, senderEmail = ''a@x''\<rparr> else Throws),
                path_join = (\<lambda>d f. d @ ''/'' @ f)\<rparr>
             (map (Data 1) ([''{'', ''}'' @ [CHR 0x00] @ ''xy''] @ [''ab'']) @
                [Accept ''t1'', Drain 1] @ map (Data 1) [''cd'', ''ef''])
             (handleIncomingConnection 1 (FileTransfer_constructor ''/dl''))) 1) = Some (Some 8)"
  using C7_buffered_bytes_preserved [where
      s = "handleIncomingConnection 1 (FileTransfer_constructor ''/dl'')" and sid = 1
      and cs = "[''{'', ''}'' @ [CHR 0x00] @ ''xy'']" and hdr = "''{}''" and rest = "''xy''"
      and node = "\<lparr>JSON_parse = (\<lambda>h. if h = ''{}'' then Header \<lparr>transferId = ''t1'', fileName = ''f.bin'', fileSize = 8, senderEmail = ''a@x''\<rparr> else Throws),
              path_join = (\<lambda>d f. d @ ''/'' @ f)\<rparr>"
      and info = "\<lparr>transferId = ''t1'', fileName = ''f.bin'', fileSize = 8, senderEmail = ''a@x''\<rparr>"
      and es = "[''ab'']" and ds = "[''cd'', ''ef'']"]
  by (simp add: receive_defs socket_defs file_defs Let_def)

section \<open>Progress values\<close>






subsection \<open>The sending side\<close>



subsection \<open>The receiving side\<close>





section \<open>A second offer while one is pending\<close>

lemma connection_onData_other:
  assumes "sid \<noteq> a"
  shows "conns (connection_onData node sid chunk s) a = conns s a"
    and "pendingTransfer (connection_onData node sid chunk s) = pendingTransfer s \<or>
         (\<exists>p. pendingTransfer (connection_onData node sid chunk s) = Some p \<and> p_socket p = sid)"
  using assms
  by (auto simp: connection_onData_def socket_defs Let_def emit_def split: option.splits parsed.splits)

lemma accept_onData_other:
  assumes "sid \<noteq> a"
  shows "conns (accept_onData sid chunk s) a = conns s a"
    and "pendingTransfer (accept_onData sid chunk s) = pendingTransfer s"
  using assms
  by (auto simp: accept_onData_def socket_defs Let_def emit_def emitProgress_def
      fileStream_write_def fileStream_end_def split: option.splits open_state.splits)

lemma emit_data_other:
  assumes "sid \<noteq> a"
  shows "conns (emit_data node sid chunk s) a = conns s a"
    and "pendingTransfer (emit_data node sid chunk s) = pendingTransfer s \<or>
         (\<exists>p. pendingTransfer (emit_data node sid chunk s) = Some p \<and> p_socket p = sid)"
  unfolding emit_data_def
  using connection_onData_other [OF assms, of node chunk s]
    accept_onData_other [OF assms, of chunk "connection_onData node sid chunk s"]
  by simp_all

lemma read_chunks_other:
  assumes "sid \<noteq> a"
  shows "conns (read_chunks node sid chunks s) a = conns s a \<and>
         (pendingTransfer (read_chunks node sid chunks s) = pendingTransfer s \<or>
          (\<exists>p. pendingTransfer (read_chunks node sid chunks s) = Some p \<and> p_socket p = sid))"
  using assms
proof (induction node sid chunks s rule: read_chunks.induct)
  case (1 node sid s)
  show ?case by simp
next
  case (2 node sid chunk rest s)
  show ?case
  proof (cases "conns s sid")
    case None
    then show ?thesis by simp
  next
    case (Some c)
    show ?thesis
    proof (cases "c_paused c \<or> c_closed c")
      case True
      with Some 2(2) show ?thesis
        by (simp add: update_conn_def)
    next
      case False
      have A: "read_chunks node sid (chunk # rest) s = read_chunks node sid rest (emit_data node sid chunk s)"
        using Some False by simp
      from 2(1) [OF Some False 2(2)] emit_data_other [OF 2(2), of node chunk s]
      show ?thesis
        unfolding A by auto
    qed
  qed
qed

lemma drain_other:
  assumes "sid \<noteq> a"
  shows "conns (drain node sid s) a = conns s a \<and>
         (pendingTransfer (drain node sid s) = pendingTransfer s \<or>
          (\<exists>p. pendingTransfer (drain node sid s) = Some p \<and> p_socket p = sid))"
proof (cases "conns s sid")
  case None
  then show ?thesis by (simp add: drain_def)
next
  case (Some c)
  let ?s0 = "update_conn sid (\<lambda>c. c\<lparr>c_unread := []\<rparr>) s"
  have "conns ?s0 a = conns s a" "pendingTransfer ?s0 = pendingTransfer s"
    using assms Some by (simp_all add: update_conn_def)
  with read_chunks_other [OF assms, of node "c_unread c" ?s0] Some show ?thesis
    by (simp add: drain_def del: read_chunks.simps)
qed

lemma drain_paused:
  assumes "conns s a = Some c" "c_paused c"
  shows "drain node a s = s"
proof (cases "c_unread c = []")
  case True
  then have "c\<lparr>c_unread := []\<rparr> = c" by simp
  then have "s\<lparr>conns := (conns s)(a \<mapsto> c\<lparr>c_unread := []\<rparr>)\<rparr> = s"
    using conns_triv [OF assms(1)] by simp
  with True assms(1) show ?thesis
    by (simp add: drain_def update_conn_def)
next
  case False
  let ?s0 = "s\<lparr>conns := (conns s)(a \<mapsto> c\<lparr>c_unread := []\<rparr>)\<rparr>"
  have "read_chunks node a (c_unread c) ?s0 =
          ?s0\<lparr>conns := (conns ?s0)(a \<mapsto> (c\<lparr>c_unread := []\<rparr>)\<lparr>c_unread := c_unread c\<rparr>)\<rparr>"
    using assms(2) False by (intro read_chunks_paused) simp_all
  also have "\<dots> = s"
    using conns_triv [OF assms(1)] by simp
  finally show ?thesis
    using assms(1) by (simp add: drain_def update_conn_def del: read_chunks.simps)
qed

text \<open>
  A socket that is paused, has been written nothing, has no listener of \<open>acceptTransfer\<close>
  and is not the socket of the pending offer stays so, whatever happens.
\<close>

lemma step_keeps_paused_offer:
  assumes "conns s a = Some c" "c_paused c" "c_out c = []" "c_receiver c = None"
    and "\<forall>p. pendingTransfer s = Some p \<longrightarrow> p_socket p \<noteq> a"
  shows "(\<exists>c'. conns (step node x s) a = Some c' \<and> c_paused c' \<and> c_out c' = [] \<and>
              c_receiver c' = None)
       \<and> (\<forall>p. pendingTransfer (step node x s) = Some p \<longrightarrow> p_socket p \<noteq> a)"
proof (cases x)
  case (Connect sid)
  with assms show ?thesis
    by (auto simp: handleIncomingConnection_def)
next
  case (Data sid chunk)
  show ?thesis
  proof (cases "sid = a")
    case True
    show ?thesis
    proof (cases "c_closed c")
      case True
      with Data \<open>sid = a\<close> assms show ?thesis by simp
    next
      case False
      have "step node (Data a chunk) s =
           s\<lparr>conns := (conns s)(a \<mapsto> c\<lparr>c_unread := c_unread c @ [chunk]\<rparr>)\<rparr>"
        using assms(1,2) False by (rule step_Data_paused)
      with Data True assms show ?thesis by simp
    qed
  next
    case False
    show ?thesis
    proof (cases "conns s sid")
      case None
      with Data assms show ?thesis by simp
    next
      case (Some d)
      let ?s0 = "update_conn sid (\<lambda>c. c\<lparr>c_unread := c_unread c @ [chunk]\<rparr>) s"
      have "conns ?s0 a = conns s a" "pendingTransfer ?s0 = pendingTransfer s"
        using False Some by (simp_all add: update_conn_def)
      with drain_other [OF False, of node ?s0] Data Some assms False show ?thesis
        by (cases "c_closed d") auto
    qed
  qed
next
  case (Drain sid)
  show ?thesis
  proof (cases "sid = a")
    case True
    with Drain drain_paused [OF assms(1,2), of node] assms show ?thesis by simp
  next
    case False
    with drain_other [OF False, of node s] Drain assms show ?thesis by auto
  qed
next
  case (Close sid)
  with assms show ?thesis
    by (auto simp: accept_onClose_def socket_defs fileStream_end_def emit_def Let_def
        split: option.splits)
next
  case (Open fid ok)
  with assms show ?thesis
    by (auto simp: fileStream_open_def split: option.splits)
next
  case (Accept tid)
  with assms show ?thesis
    by (auto simp: acceptTransfer_def socket_defs createWriteStream_def fileStream_write_def
        emitProgress_def emit_def Let_def split: option.splits)
next
  case (Reject tid)
  with assms show ?thesis
    by (auto simp: rejectTransfer_def socket_defs Let_def split: option.splits)
next
  case (Cancel tid)
  with assms show ?thesis
    by (auto simp: cancelTransfer_def fileStream_close_def unlinkSync_def emit_def Let_def
        split: option.splits sum.splits)
qed

lemma run_keeps_paused_offer:
  assumes "conns s a = Some c" "c_paused c" "c_out c = []" "c_receiver c = None"
    and "\<forall>p. pendingTransfer s = Some p \<longrightarrow> p_socket p \<noteq> a"
  shows "(\<exists>c'. conns (run node xs s) a = Some c' \<and> c_paused c' \<and> c_out c' = [])
       \<and> (\<forall>p. pendingTransfer (run node xs s) = Some p \<longrightarrow> p_socket p \<noteq> a)"
  using assms
proof (induction xs arbitrary: s c)
  case Nil
  then show ?case by simp
next
  case (Cons x xs)
  from step_keeps_paused_offer [OF Cons.prems, of node x]
  obtain c' where "conns (step node x s) a = Some c'" "c_paused c'"
      "c_out c' = []" "c_receiver c' = None"
    and "\<forall>p. pendingTransfer (step node x s) = Some p \<longrightarrow> p_socket p \<noteq> a"
    by blast
  from Cons.IH [OF this] show ?case
    unfolding run.simps .
qed

lemma rejectTransfer_socket:
  assumes "pendingTransfer s = Some p" "p_transferInfo p = Some info" "transferId info = tid"
    and "conns s (p_socket p) = Some c"
  shows "conns (step node (Reject tid) s) (p_socket p) =
           Some (c\<lparr>c_out := c_out c @ [ack False], c_ended := True\<rparr>)"
  using rejectTransfer_succeeds [OF assms] by simp

text \<open>
  C10 (as amended). An offer is pending on socket \<open>a\<close>, which is paused and has been
  written nothing, when a chunk completes the header of a second connection \<open>b\<close>. The
  pending slot then holds the second offer, whatever it held. Right after that,
  \<open>acceptTransfer\<close> and \<open>rejectTransfer\<close> with the earlier id return false and change
  nothing if the two transfer ids differ; if they are equal, both return true and it is
  socket \<open>b\<close> that the ack is written to. In either case the earlier connection is never
  decided: whatever happens afterwards (connections, chunks, reads, closes, file opens,
  accepts, rejects, cancels), socket \<open>a\<close> stays paused, no ack is ever written to it and
  the pending slot never refers to it again.
\<close>

theorem C10_pending_offer_overwritten:
  assumes "pendingTransfer s = Some pA" "p_socket pA = a" "p_transferInfo pA = Some infoA"
    and "conns s a = Some ca" "c_paused ca" "c_out ca = []" "c_receiver ca = None"
    and "b \<noteq> a" "conns s b = Some cb" "\<not> c_headerReceived cb" "\<not> c_paused cb"
        "\<not> c_closed cb" "c_unread cb = []" "c_receiver cb = None"
    and "c_buffer cb @ chunk = hdr @ CHR 0x00 # rest" "CHR 0x00 \<notin> set hdr"
        "JSON_parse node hdr = Header infoB"
  shows "pendingTransfer (step node (Data b chunk) s) =
           Some \<lparr>p_socket = b, p_transferInfo = Some infoB, p_buffer = rest\<rparr>
       \<and> (transferId infoB \<noteq> transferId infoA \<longrightarrow>
            acceptTransfer node (transferId infoA) (step node (Data b chunk) s) =
              Inr (False, step node (Data b chunk) s)
          \<and> rejectTransfer (transferId infoA) (step node (Data b chunk) s) =
              Inr (False, step node (Data b chunk) s))
       \<and> (transferId infoB = transferId infoA \<longrightarrow>
            map_sum id fst (acceptTransfer node (transferId infoA) (step node (Data b chunk) s)) = Inr True
          \<and> map_sum id fst (rejectTransfer (transferId infoA) (step node (Data b chunk) s)) = Inr True
          \<and> map_option c_out
              (conns (step node (Accept (transferId infoA)) (step node (Data b chunk) s)) b) =
              Some (c_out cb @ [ack True])
          \<and> map_option c_out
              (conns (step node (Reject (transferId infoA)) (step node (Data b chunk) s)) b) =
              Some (c_out cb @ [ack False]))
       \<and> (\<exists>c. conns (run node xs (step node (Data b chunk) s)) a = Some c \<and>
              c_paused c \<and> c_out c = [])
       \<and> (\<forall>p. pendingTransfer (run node xs (step node (Data b chunk) s)) = Some p \<longrightarrow>
              p_socket p \<noteq> a)"
proof -
  let ?s1 = "step node (Data b chunk) s"
  let ?pB = "\<lparr>p_socket = b, p_transferInfo = Some infoB, p_buffer = rest\<rparr>"
  let ?cb1 = "cb\<lparr>c_buffer := rest, c_transferInfo := Some infoB,
                    c_headerReceived := True, c_paused := True\<rparr>"
  have s1: "?s1 =
           s\<lparr>conns := (conns s)(b \<mapsto> ?cb1),
             pendingTransfer := Some ?pB,
             events := events s @
               [TransferRequest (senderEmail infoB) (fileName infoB) (fileSize infoB) (transferId infoB)]\<rparr>"
    by (rule step_Data_header_complete [where hdr = hdr]) (fact assms)+
  have pend: "pendingTransfer ?s1 = Some ?pB"
    unfolding s1 by simp
  have info: "p_transferInfo ?pB = Some infoB"
    by simp
  have ca: "conns ?s1 a = Some ca"
    unfolding s1 using assms(4,8) by simp
  have cb1: "conns ?s1 (p_socket ?pB) = Some ?cb1"
    unfolding s1 by simp
  have other: "\<forall>p. pendingTransfer ?s1 = Some p \<longrightarrow> p_socket p \<noteq> a"
    unfolding s1 using assms(8) by simp
  have no: "transferId infoB \<noteq> transferId infoA \<longrightarrow>
            acceptTransfer node (transferId infoA) ?s1 = Inr (False, ?s1)
          \<and> rejectTransfer (transferId infoA) ?s1 = Inr (False, ?s1)"
    using pend acceptTransfer_fails [of ?s1 "transferId infoA" node]
      rejectTransfer_fails [of ?s1 "transferId infoA"]
    by auto
  have yes: "transferId infoB = transferId infoA \<longrightarrow>
            map_sum id fst (acceptTransfer node (transferId infoA) ?s1) = Inr True
          \<and> map_sum id fst (rejectTransfer (transferId infoA) ?s1) = Inr True
          \<and> map_option c_out (conns (step node (Accept (transferId infoA)) ?s1) b) =
              Some (c_out cb @ [ack True])
          \<and> map_option c_out (conns (step node (Reject (transferId infoA)) ?s1) b) =
              Some (c_out cb @ [ack False])"
  proof
    assume eq: "transferId infoB = transferId infoA"
    have "map_sum id fst (acceptTransfer node (transferId infoA) ?s1) = Inr True"
      unfolding acceptTransfer_succeeds(1) [OF pend info eq] by simp
    moreover have rej: "rejectTransfer (transferId infoA) ?s1 =
        Inr (True, ?s1\<lparr>conns := (conns ?s1)(p_socket ?pB \<mapsto> ?cb1\<lparr>c_out := c_out ?cb1 @ [ack False], c_ended := True\<rparr>),
                  pendingTransfer := None\<rparr>)"
      by (rule rejectTransfer_succeeds [OF pend info eq cb1])
    moreover have "map_option c_out (conns (step node (Accept (transferId infoA)) ?s1) b) =
              Some (c_out cb @ [ack True])"
      using acceptTransfer_socket [OF pend info eq cb1, of node] by simp
    moreover have "map_option c_out (conns (step node (Reject (transferId infoA)) ?s1) b) =
              Some (c_out cb @ [ack False])"
      using rejectTransfer_socket [OF pend info eq cb1, of node] by simp
    ultimately show "map_sum id fst (acceptTransfer node (transferId infoA) ?s1) = Inr True
          \<and> map_sum id fst (rejectTransfer (transferId infoA) ?s1) = Inr True
          \<and> map_option c_out (conns (step node (Accept (transferId infoA)) ?s1) b) =
              Some (c_out cb @ [ack True])
          \<and> map_option c_out (conns (step node (Reject (transferId infoA)) ?s1) b) =
              Some (c_out cb @ [ack False])"
      by simp
  qed
  have "(\<exists>c. conns (run node xs ?s1) a = Some c \<and> c_paused c \<and> c_out c = [])
       \<and> (\<forall>p. pendingTransfer (run node xs ?s1) = Some p \<longrightarrow> p_socket p \<noteq> a)"
    by (rule run_keeps_paused_offer [OF ca assms(5,6,7) other])
  with pend no yes show ?thesis by blast
qed

theorem C10_pending_offer_overwritten_witness:
  \<open>pendingTransfer
      (run \<lparr>JSON_parse = (\<lambda>h. Header \<lparr>transferId = h, fileName = ''f.bin'', fileSize = 8, senderEmail = ''a@x''\<rparr>),
            path_join = (\<lambda>d f. d @ ''/'' @ f)\<rparr>
         [Connect 1, Data 1 (''tA'' @ [CHR 0x00]), Connect 2] (FileTransfer_constructor ''/dl'')) =
     Some \<lparr>p_socket = 1,
           p_transferInfo = Some \<lparr>transferId = ''tA'', fileName = ''f.bin'', fileSize = 8, senderEmail = ''a@x''\<rparr>,
           p_buffer = []\<rparr>
   \<and> conns
      (run \<lparr>JSON_parse = (\<lambda>h. Header \<lparr>transferId = h, fileName = ''f.bin'', fileSize = 8, senderEmail = ''a@x''\<rparr>),
            path_join = (\<lambda>d f. d @ ''/'' @ f)\<rparr>
         [Connect 1, Data 1 (''tA'' @ [CHR 0x00]), Connect 2] (FileTransfer_constructor ''/dl'')) 1 =
     Some (new_conn\<lparr>c_transferInfo :=
                   Some \<lparr>transferId = ''tA'', fileName = ''f.bin'', fileSize = 8, senderEmail = ''a@x''\<rparr>,
                 c_headerReceived := True, c_paused := True\<rparr>)
   \<and> conns
      (run \<lparr>JSON_parse = (\<lambda>h. Header \<lparr>transferId = h, fileName = ''f.bin'', fileSize = 8, senderEmail = ''a@x''\<rparr>),
            path_join = (\<lambda>d f. d @ ''/'' @ f)\<rparr>
         [Connect 1, Data 1 (''tA'' @ [CHR 0x00]), Connect 2] (FileTransfer_constructor ''/dl'')) 2 =
     Some new_conn
   \<and> pendingTransfer
      (run \<lparr>JSON_parse = (\<lambda>h. Header \<lparr>transferId = h, fileName = ''f.bin'', fileSize = 8, senderEmail = ''a@x''\<rparr>),
            path_join = (\<lambda>d f. d @ ''/'' @ f)\<rparr>
         [Connect 1, Data 1 (''tA'' @ [CHR 0x00]), Connect 2, Data 2 (''tB'' @ [CHR 0x00])]
         (FileTransfer_constructor ''/dl'')) =
     Some \<lparr>p_socket = 2,
           p_transferInfo = Some \<lparr>transferId = ''tB'', fileName = ''f.bin'', fileSize = 8, senderEmail = ''a@x''\<rparr>,
           p_buffer = []\<rparr>
   \<and> map_sum id fst (acceptTransfer
        \<lparr>JSON_parse = (\<lambda>h. Header \<lparr>transferId = h, fileName = ''f.bin'', fileSize = 8, senderEmail = ''a@x''\<rparr>),
         path_join = (\<lambda>d f. d @ ''/'' @ f)\<rparr> ''tA''
      (run \<lparr>JSON_parse = (\<lambda>h. Header \<lparr>transferId = h, fileName = ''f.bin'', fileSize = 8, senderEmail = ''a@x''\<rparr>),
            path_join = (\<lambda>d f. d @ ''/'' @ f)\<rparr>
         [Connect 1, Data 1 (''tA'' @ [CHR 0x00]), Connect 2, Data 2 (''tB'' @ [CHR 0x00])]
         (FileTransfer_constructor ''/dl''))) = Inr False
   \<and> map_sum id fst (rejectTransfer ''tA''
      (run \<lparr>JSON_parse = (\<lambda>h. Header \<lparr>transferId = h, fileName = ''f.bin'', fileSize = 8, senderEmail = ''a@x''\<rparr>),
            path_join = (\<lambda>d f. d @ ''/'' @ f)\<rparr>
         [Connect 1, Data 1 (''tA'' @ [CHR 0x00]), Connect 2, Data 2 (''tB'' @ [CHR 0x00])]
         (FileTransfer_constructor ''/dl''))) = Inr False
   \<and> map_option (\<lambda>c. (c_paused c, c_out c))
        (conns
          (run \<lparr>JSON_parse = (\<lambda>h. Header \<lparr>transferId = h, fileName = ''f.bin'', fileSize = 8, senderEmail = ''a@x''\<rparr>),
                path_join = (\<lambda>d f. d @ ''/'' @ f)\<rparr>
             [Connect 1, Data 1 (''tA'' @ [CHR 0x00]), Connect 2, Data 2 (''tB'' @ [CHR 0x00]),
              Accept ''tA'', Reject ''tA'', Data 1 ''zz'', Drain 1, Accept ''tB'', Drain 2,
              Data 2 ''abcd'', Open 0 True, Accept ''tA'', Close 2, Cancel ''tB'']
             (FileTransfer_constructor ''/dl'')) 1) = Some (True, [])
   \<and> map_option c_out
        (conns
          (run \<lparr>JSON_parse = (\<lambda>h. Header \<lparr>transferId = h, fileName = ''f.bin'', fileSize = 8, senderEmail = ''a@x''\<rparr>),
                path_join = (\<lambda>d f. d @ ''/'' @ f)\<rparr>
             [Connect 1, Data 1 (''tA'' @ [CHR 0x00]), Connect 2, Data 2 (''tA'' @ [CHR 0x00]), Reject ''tA'']
             (FileTransfer_constructor ''/dl'')) 2) = Some [''{"accepted":false}'' @ [CHR 0x00]]\<close>
  using C10_pending_offer_overwritten [where
      s = "run \<lparr>JSON_parse = (\<lambda>h. Header \<lparr>transferId = h, fileName = ''f.bin'', fileSize = 8, senderEmail = ''a@x''\<rparr>),
            path_join = (\<lambda>d f. d @ ''/'' @ f)\<rparr>
         [Connect 1, Data 1 (''tA'' @ [CHR 0x00]), Connect 2] (FileTransfer_constructor ''/dl'')"
      and pA = "\<lparr>p_socket = 1,
        p_transferInfo = Some \<lparr>transferId = ''tA'', fileName = ''f.bin'', fileSize = 8, senderEmail = ''a@x''\<rparr>,
        p_buffer = []\<rparr>"
      and a = 1
      and infoA = "\<lparr>transferId = ''tA'', fileName = ''f.bin'', fileSize = 8, senderEmail = ''a@x''\<rparr>"
      and ca = "new_conn\<lparr>c_transferInfo :=
                   Some \<lparr>transferId = ''tA'', fileName = ''f.bin'', fileSize = 8, senderEmail = ''a@x''\<rparr>,
                 c_headerReceived := True, c_paused := True\<rparr>"
      and b = 2 and cb = new_conn and chunk = "''tB'' @ [CHR 0x00]" and hdr = "''tB''" and rest = "[]"
      and node = "\<lparr>JSON_parse = (\<lambda>h. Header \<lparr>transferId = h, fileName = ''f.bin'', fileSize = 8, senderEmail = ''a@x''\<rparr>),
            path_join = (\<lambda>d f. d @ ''/'' @ f)\<rparr>"
      and infoB = "\<lparr>transferId = ''tB'', fileName = ''f.bin'', fileSize = 8, senderEmail = ''a@x''\<rparr>"
      and xs = "[Accept ''tA'', Reject ''tA'', Data 1 ''zz'', Drain 1, Accept ''tB'', Drain 2,
              Data 2 ''abcd'', Open 0 True, Accept ''tA'', Close 2, Cancel ''tB'']"]
    C10_pending_offer_overwritten [where
      s = "run \<lparr>JSON_parse = (\<lambda>h. Header \<lparr>transferId = h, fileName = ''f.bin'', fileSize = 8, senderEmail = ''a@x''\<rparr>),
            path_join = (\<lambda>d f. d @ ''/'' @ f)\<rparr>
         [Connect 1, Data 1 (''tA'' @ [CHR 0x00]), Connect 2] (FileTransfer_constructor ''/dl'')"
      and pA = "\<lparr>p_socket = 1,
        p_transferInfo = Some \<lparr>transferId = ''tA'', fileName = ''f.bin'', fileSize = 8, senderEmail = ''a@x''\<rparr>,
        p_buffer = []\<rparr>"
      and a = 1
      and infoA = "\<lparr>transferId = ''tA'', fileName = ''f.bin'', fileSize = 8, senderEmail = ''a@x''\<rparr>"
      and ca = "new_conn\<lparr>c_transferInfo :=
                   Some \<lparr>transferId = ''tA'', fileName = ''f.bin'', fileSize = 8, senderEmail = ''a@x''\<rparr>,
                 c_headerReceived := True, c_paused := True\<rparr>"
      and b = 2 and cb = new_conn and chunk = "''tA'' @ [CHR 0x00]" and hdr = "''tA''" and rest = "[]"
      and node = "\<lparr>JSON_parse = (\<lambda>h. Header \<lparr>transferId = h, fileName = ''f.bin'', fileSize = 8, senderEmail = ''a@x''\<rparr>),
            path_join = (\<lambda>d f. d @ ''/'' @ f)\<rparr>"
      and infoB = "\<lparr>transferId = ''tA'', fileName = ''f.bin'', fileSize = 8, senderEmail = ''a@x''\<rparr>"
      and xs = "[]"]
  by (simp add: receive_defs socket_defs file_defs Let_def progress_of_def)

theorem C10_counterexample:
  \<open>pendingTransfer
      (run \<lparr>JSON_parse = (\<lambda>h. Header \<lparr>transferId = ''t1'', fileName = h, fileSize = 8, senderEmail = ''a@x''\<rparr>),
            path_join = (\<lambda>d f. d @ ''/'' @ f)\<rparr>
         [Connect 1, Data 1 (''f.bin'' @ [CHR 0x00]), Connect 2, Data 2 (''g.bin'' @ [CHR 0x00])]
         (FileTransfer_constructor ''/dl'')) =
     Some \<lparr>p_socket = 2,
           p_transferInfo = Some \<lparr>transferId = ''t1'', fileName = ''g.bin'', fileSize = 8, senderEmail = ''a@x''\<rparr>,
           p_buffer = []\<rparr>
   \<and> map_sum id fst (acceptTransfer
        \<lparr>JSON_parse = (\<lambda>h. Header \<lparr>transferId = ''t1'', fileName = h, fileSize = 8, senderEmail = ''a@x''\<rparr>),
         path_join = (\<lambda>d f. d @ ''/'' @ f)\<rparr> ''t1''
      (run \<lparr>JSON_parse = (\<lambda>h. Header \<lparr>transferId = ''t1'', fileName = h, fileSize = 8, senderEmail = ''a@x''\<rparr>),
            path_join = (\<lambda>d f. d @ ''/'' @ f)\<rparr>
         [Connect 1, Data 1 (''f.bin'' @ [CHR 0x00]), Connect 2, Data 2 (''g.bin'' @ [CHR 0x00])]
         (FileTransfer_constructor ''/dl''))) = Inr True
   \<and> map_sum id fst (rejectTransfer ''t1''
      (run \<lparr>JSON_parse = (\<lambda>h. Header \<lparr>transferId = ''t1'', fileName = h, fileSize = 8, senderEmail = ''a@x''\<rparr>),
            path_join = (\<lambda>d f. d @ ''/'' @ f)\<rparr>
         [Connect 1, Data 1 (''f.bin'' @ [CHR 0x00]), Connect 2, Data 2 (''g.bin'' @ [CHR 0x00])]
         (FileTransfer_constructor ''/dl''))) = Inr True
   \<and> map_option (\<lambda>c. (c_paused c, c_out c))
        (conns
          (run \<lparr>JSON_parse = (\<lambda>h. Header \<lparr>transferId = ''t1'', fileName = h, fileSize = 8, senderEmail = ''a@x''\<rparr>),
                path_join = (\<lambda>d f. d @ ''/'' @ f)\<rparr>
             [Connect 1, Data 1 (''f.bin'' @ [CHR 0x00]), Connect 2, Data 2 (''g.bin'' @ [CHR 0x00]), Accept ''t1'']
             (FileTransfer_constructor ''/dl'')) 2) = Some (False, [''{"accepted":true}'' @ [CHR 0x00]])
   \<and> map_option (\<lambda>c. (c_paused c, c_out c))
        (conns
          (run \<lparr>JSON_parse = (\<lambda>h. Header \<lparr>transferId = ''t1'', fileName = h, fileSize = 8, senderEmail = ''a@x''\<rparr>),
                path_join = (\<lambda>d f. d @ ''/'' @ f)\<rparr>
             [Connect 1, Data 1 (''f.bin'' @ [CHR 0x00]), Connect 2, Data 2 (''g.bin'' @ [CHR 0x00]), Accept ''t1'']
             (FileTransfer_constructor ''/dl'')) 1) = Some (True, [])\<close>
  by (simp add: receive_defs socket_defs file_defs Let_def)

end
